theory Spec2Isabelle
  imports Main "HOL-Library.Word"
begin

unbundle bit_operations_syntax

section \<open>C strings\<close>

text \<open>
  The library works on NUL-terminated \<^verbatim>\<open>char*\<close> strings. A region of memory is a
  list of bytes; the C string that starts at a pointer is the run of bytes before the
  first NUL (what \<^verbatim>\<open>strlen\<close>, \<^verbatim>\<open>strcpy\<close> and \<^verbatim>\<open>strcat\<close> see). A \<^verbatim>\<open>char*\<close> that may be
  NULL is a \<open>string option\<close>.
\<close>

definition NUL :: char where
  "NUL = CHR 0x00"

definition NL :: char where
  "NL = CHR 0x0A"

definition cstr :: "string \<Rightarrow> string" where
  "cstr mem = takeWhile (\<lambda>c. c \<noteq> NUL) mem"

text \<open>
  \<^verbatim>\<open>appendTextOutput\<close> always leaves \<^verbatim>\<open>*outputText\<close> pointing at a string; the
  function returns its new contents. The second argument is the memory at \<open>inputText\<close>.
\<close>

definition appendTextOutput :: "string option \<Rightarrow> string \<Rightarrow> string" where
  "appendTextOutput outputText inputText =
     (case outputText of
        Some s \<Rightarrow> s @ cstr inputText
      | None \<Rightarrow> cstr inputText)"

text \<open>
  A \<^verbatim>\<open>STRINGARRAY*\<close> is NULL or a NULL-terminated array of strings;
  \<^verbatim>\<open>appendTextArray\<close> stores the new string at the end.
\<close>

definition appendTextArray :: "string list option \<Rightarrow> string \<Rightarrow> string list" where
  "appendTextArray outputArray inputText =
     (case outputArray of
        Some xs \<Rightarrow> xs @ [inputText]
      | None \<Rightarrow> [inputText])"

section \<open>Output workers\<close>

text \<open>
  What successive \<^verbatim>\<open>read(hRead, lpBuffer, 256)\<close> calls return: some bytes, or -1.
  A read that returns 0 bytes is end of file; when the list is used up the pipe is at
  end of file as well.
\<close>

datatype read_result = ReadBytes string | ReadError

text \<open>
  The \<^verbatim>\<open>for\<close> loop of \<^verbatim>\<open>HandleOutputToVector\<close> over one chunk of \<open>nBytesRead\<close> bytes in
  \<open>lpBuffer\<close>: at each newline the byte is overwritten with NUL, the C string at
  \<open>lpBuffer + start\<close> is appended to the line under construction, and the line is stored.
\<close>

function scan_chunk ::
  "string \<Rightarrow> nat \<Rightarrow> nat \<Rightarrow> nat \<Rightarrow> string option \<Rightarrow> string list option
     \<Rightarrow> string \<times> nat \<times> string option \<times> string list option" where
  "scan_chunk lpBuffer nBytesRead i start buffer aOut =
     (if i < nBytesRead then
        (if lpBuffer ! i = NL then
           (let lpBuffer' = lpBuffer[i := NUL];
                line = appendTextOutput buffer (drop start lpBuffer');
                aOut' = appendTextArray aOut line
            in scan_chunk lpBuffer' nBytesRead (i + 1) (i + 1) None (Some aOut'))
         else scan_chunk lpBuffer nBytesRead (i + 1) start buffer aOut)
      else (lpBuffer, start, buffer, aOut))"
  by pat_completeness auto
termination
  by (relation "measure (\<lambda>(lpBuffer, nBytesRead, i, start, buffer, aOut). nBytesRead - i)") auto

declare scan_chunk.simps [simp del]

text \<open>
  \<^verbatim>\<open>HandleOutputToVector\<close>: the result is the array holder and the worker's error flag.
  After the loop, a line still under construction is stored as the last line.
\<close>

definition finish_vector :: "string option \<Rightarrow> string list option \<Rightarrow> string list option" where
  "finish_vector buffer aOut =
     (case buffer of
        Some b \<Rightarrow> Some (appendTextArray aOut b)
      | None \<Rightarrow> aOut)"

fun vector_loop ::
  "read_result list \<Rightarrow> string option \<Rightarrow> string list option \<Rightarrow> string list option \<times> int" where
  "vector_loop [] buffer aOut = (finish_vector buffer aOut, 0)"
| "vector_loop (ReadError # rest) buffer aOut = (aOut, 1)"
| "vector_loop (ReadBytes bytes # rest) buffer aOut =
     (if length bytes = 0 then (finish_vector buffer aOut, 0)
      else
        (case scan_chunk bytes (length bytes) 0 0 buffer aOut of
           (lpBuffer, start, buffer', aOut') \<Rightarrow>
             (if start < length bytes then
                vector_loop rest (Some (appendTextOutput buffer' (drop start (lpBuffer @ [NUL])))) aOut'
              else vector_loop rest buffer' aOut')))"

definition HandleOutputToVector :: "read_result list \<Rightarrow> string list option \<Rightarrow> string list option \<times> int" where
  "HandleOutputToVector reads aOut = vector_loop reads None aOut"

text \<open>
  \<^verbatim>\<open>HandleOutputToString\<close>: \<open>sOut\<close> is the caller's \<^verbatim>\<open>char**\<close> (\<open>None\<close> when the output is
  discarded), holding NULL or a string. Every pass of the loop, the last one at end of
  file included, terminates \<open>lpBuffer\<close> with NUL and appends it as a C string.
\<close>

fun HandleOutputToString ::
  "read_result list \<Rightarrow> string option option \<Rightarrow> string option option \<times> int" where
  "HandleOutputToString [] sOut =
     ((case sOut of Some holder \<Rightarrow> Some (Some (appendTextOutput holder [NUL])) | None \<Rightarrow> None), 0)"
| "HandleOutputToString (ReadError # rest) sOut = (sOut, 1)"
| "HandleOutputToString (ReadBytes bytes # rest) sOut =
     (let sOut' = (case sOut of
                     Some holder \<Rightarrow> Some (Some (appendTextOutput holder (bytes @ [NUL])))
                   | None \<Rightarrow> None)
      in if length bytes = 0 then (sOut', 0) else HandleOutputToString rest sOut')"

section \<open>Reference semantics of line splitting\<close>

text \<open>
  \<open>split_nl B\<close> is \<open>B\<close> split at every newline, the newlines removed: the fields
  between the separators, so a \<open>B\<close> that ends in a newline has an empty last field.
  \<open>lines_of B\<close> leaves an empty last field out.
\<close>

fun split_acc :: "string \<Rightarrow> string \<Rightarrow> string list" where
  "split_acc cur [] = [cur]"
| "split_acc cur (c # cs) = (if c = NL then cur # split_acc [] cs else split_acc (cur @ [c]) cs)"

definition split_nl :: "string \<Rightarrow> string list" where
  "split_nl B = split_acc [] B"

definition lines_of :: "string \<Rightarrow> string list" where
  "lines_of B = (let fs = split_nl B in if last fs = [] then butlast fs else fs)"

text \<open>
  The worker's state seen byte by byte: the line under construction and the lines stored
  so far (a NULL pointer stands for the empty string and for the empty array).
\<close>

definition unb :: "string option \<Rightarrow> string" where
  "unb buffer = (case buffer of Some s \<Rightarrow> s | None \<Rightarrow> [])"

definition unl :: "string list option \<Rightarrow> string list" where
  "unl aOut = (case aOut of Some xs \<Rightarrow> xs | None \<Rightarrow> [])"

fun astep :: "string \<times> string list \<Rightarrow> char \<Rightarrow> string \<times> string list" where
  "astep (pend, arr) c = (if c = NL then ([], arr @ [pend]) else (pend @ [c], arr))"

definition final_lines :: "string \<times> string list \<Rightarrow> string list" where
  "final_lines st = (case st of (pend, arr) \<Rightarrow> arr @ (if pend = [] then [] else [pend]))"

definition array_of :: "string list \<Rightarrow> string list option" where
  "array_of xs = (if xs = [] then None else Some xs)"

section \<open>Command parsing\<close>

definition SP :: char where
  "SP = CHR 0x20"

definition DQUOTE :: char where
  "DQUOTE = CHR 0x22"

definition SQUOTE :: char where
  "SQUOTE = CHR 0x27"

definition SLASH :: char where
  "SLASH = CHR 0x2F"

definition COLON :: char where
  "COLON = CHR 0x3A"

text \<open>
  \<^verbatim>\<open>(*command)[l]\<close>. The buffer is the copy of the command string with its terminating
  NUL; the loops below stop at a NUL, so no index beyond the terminator is read.
\<close>

definition at :: "string \<Rightarrow> nat \<Rightarrow> char" where
  "at buf l = (if l < length buf then buf ! l else NUL)"

text \<open>\<^verbatim>\<open>for (; (*command)[l]; l++) if ((*command)[l] != ' ') break;\<close>\<close>

function skip_spaces :: "string \<Rightarrow> nat \<Rightarrow> nat" where
  "skip_spaces buf l =
     (if at buf l \<noteq> NUL then (if at buf l \<noteq> SP then l else skip_spaces buf (l + 1)) else l)"
  by pat_completeness auto
termination
  by (relation "measure (\<lambda>(buf, l). length buf - l)") (auto simp: at_def split: if_splits)

declare skip_spaces.simps [simp del]

text \<open>\<^verbatim>\<open>for (; (*command)[l]; l++) if ((*command)[l] == ' ') break;\<close>\<close>

function find_space :: "string \<Rightarrow> nat \<Rightarrow> nat" where
  "find_space buf l =
     (if at buf l \<noteq> NUL then (if at buf l = SP then l else find_space buf (l + 1)) else l)"
  by pat_completeness auto
termination
  by (relation "measure (\<lambda>(buf, l). length buf - l)") (auto simp: at_def split: if_splits)

declare find_space.simps [simp del]

text \<open>
  The scan of one argument when the arguments are counted, entered after the \<^verbatim>\<open>l++\<close>
  of the loop header: \<^verbatim>\<open>for (l++; (*command)[l]; l++) if ((*command)[l] == c) { l++; break; }\<close>
\<close>

function scan_close :: "char \<Rightarrow> string \<Rightarrow> nat \<Rightarrow> nat" where
  "scan_close c buf l =
     (if at buf l \<noteq> NUL then (if at buf l = c then l + 1 else scan_close c buf (l + 1)) else l)"
  by pat_completeness auto
termination
  by (relation "measure (\<lambda>(c, buf, l). length buf - l)") (auto simp: at_def split: if_splits)

declare scan_close.simps [simp del]

text \<open>
  The same scan when the arguments are stored: the closing character is overwritten with
  NUL. \<^verbatim>\<open>for (l++; (*command)[l]; l++) if ((*command)[l] == c) { (*command)[l] = 0; l++; break; }\<close>
\<close>

function cut_close :: "char \<Rightarrow> string \<Rightarrow> nat \<Rightarrow> string \<times> nat" where
  "cut_close c buf l =
     (if at buf l \<noteq> NUL then
        (if at buf l = c then (buf[l := NUL], l + 1) else cut_close c buf (l + 1))
      else (buf, l))"
  by pat_completeness auto
termination
  by (relation "measure (\<lambda>(c, buf, l). length buf - l)") (auto simp: at_def split: if_splits)

declare cut_close.simps [simp del]

text \<open>
  The character that ends an argument starting with \<open>ch\<close>: the three cases of the
  \<^verbatim>\<open>switch\<close>.
\<close>

definition closer :: "char \<Rightarrow> char" where
  "closer ch = (if ch = DQUOTE then DQUOTE else if ch = SQUOTE then SQUOTE else SP)"

lemma skip_spaces_ge: "l \<le> skip_spaces buf l"
  by (induction buf l rule: skip_spaces.induct) (subst skip_spaces.simps, auto)

lemma scan_close_ge: "l \<le> scan_close c buf l"
  by (induction c buf l rule: scan_close.induct) (subst scan_close.simps, auto)

lemma cut_close_length: "length (fst (cut_close c buf l)) = length buf"
  by (induction c buf l rule: cut_close.induct) (subst cut_close.simps, auto)

lemma cut_close_ge: "l \<le> snd (cut_close c buf l)"
  by (induction c buf l rule: cut_close.induct) (subst cut_close.simps, auto)

lemma at_in_range: "at buf l \<noteq> NUL \<Longrightarrow> l < length buf"
  by (simp add: at_def split: if_splits)

text \<open>
  The loop that counts the arguments: one pass per argument, then the spaces after it
  are skipped.
\<close>

function count_args :: "string \<Rightarrow> nat \<Rightarrow> nat \<Rightarrow> nat" where
  "count_args buf l args =
     (if at buf l \<noteq> NUL then
        count_args buf (skip_spaces buf (scan_close (closer (at buf l)) buf (l + 1))) (args + 1)
      else args)"
  by pat_completeness auto
termination
proof (relation "measure (\<lambda>(buf, l, args). length buf - l)")
  show "wf (measure (\<lambda>(buf, l, args). length buf - l))" by simp
next
  fix buf :: string and l args :: nat
  assume a: "at buf l \<noteq> NUL"
  let ?l' = "skip_spaces buf (scan_close (closer (at buf l)) buf (l + 1))"
  have "l + 1 \<le> ?l'"
    using scan_close_ge [of "l + 1" "closer (at buf l)" buf]
      skip_spaces_ge [of "scan_close (closer (at buf l)) buf (l + 1)" buf]
    by linarith
  with at_in_range [OF a]
  show "((buf, ?l', args + 1), (buf, l, args)) \<in> measure (\<lambda>(buf, l, args). length buf - l)"
    by simp
qed

declare count_args.simps [simp del]

text \<open>
  The argument vector is a \<^verbatim>\<open>malloc\<close>ed array of \<^verbatim>\<open>char*\<close>: a slot is not yet written,
  NULL, or a pointer into the command buffer (an offset).
\<close>

datatype slot = Uninit | Null | Ptr nat

text \<open>
  The parameter \<open>argv\<close> of \<^verbatim>\<open>ParseCommand\<close> is a \<^verbatim>\<open>char ***\<close>: the address of the one
  variable (\<^verbatim>\<open>data.argv\<close>) that holds the array. \<^verbatim>\<open>(*argv)[a] = p\<close> stores into slot
  \<open>a\<close> of the array. \<^verbatim>\<open>*argv[a] = p\<close> parses as \<^verbatim>\<open>*(argv[a]) = p\<close>: for \<open>a = 0\<close> that is
  slot 0 of the array; for \<open>a > 0\<close> it takes the word \<open>a\<close> places after the variable
  \<^verbatim>\<open>data.argv\<close> for an array address and stores through it, which is outside every
  object the function was given.
\<close>

datatype fault = WildStore nat | ArrayOverrun nat

definition store_slot :: "nat \<Rightarrow> slot \<Rightarrow> slot list \<Rightarrow> fault + slot list" where
  "store_slot a p argv = (if a < length argv then Inr (argv[a := p]) else Inl (ArrayOverrun a))"

definition store_via_argv :: "nat \<Rightarrow> slot \<Rightarrow> slot list \<Rightarrow> fault + slot list" where
  "store_via_argv a p argv = (if a = 0 then store_slot 0 p argv else Inl (WildStore a))"

text \<open>
  The loop that stores the arguments. A quoted argument is stored with
  \<^verbatim>\<open>*argv[a] = *command + l + 1\<close>, an unquoted one with \<^verbatim>\<open>(*argv)[a] = *command + l\<close>.
\<close>

function process_args :: "string \<Rightarrow> nat \<Rightarrow> nat \<Rightarrow> slot list \<Rightarrow> fault + string \<times> slot list" where
  "process_args buf l a argv =
     (if at buf l \<noteq> NUL then
        (if at buf l = DQUOTE \<or> at buf l = SQUOTE then
           (case store_via_argv a (Ptr (l + 1)) argv of
              Inl f \<Rightarrow> Inl f
            | Inr argv' \<Rightarrow>
                process_args (fst (cut_close (at buf l) buf (l + 1)))
                  (skip_spaces (fst (cut_close (at buf l) buf (l + 1)))
                     (snd (cut_close (at buf l) buf (l + 1))))
                  (a + 1) argv')
         else
           (case store_slot a (Ptr l) argv of
              Inl f \<Rightarrow> Inl f
            | Inr argv' \<Rightarrow>
                process_args (fst (cut_close SP buf (l + 1)))
                  (skip_spaces (fst (cut_close SP buf (l + 1))) (snd (cut_close SP buf (l + 1))))
                  (a + 1) argv'))
      else Inr (buf, argv))"
  by pat_completeness auto
termination
proof (relation "measure (\<lambda>(buf, l, a, argv). length buf - l)")
  show "wf (measure (\<lambda>(buf, l, a, argv). length buf - l))" by simp
next
  fix buf :: string and l a :: nat and argv x2 :: "slot list"
  assume a: "at buf l \<noteq> NUL"
  let ?c = "cut_close (at buf l) buf (l + 1)"
  have "l + 1 \<le> skip_spaces (fst ?c) (snd ?c)"
    using cut_close_ge [of "l + 1" "at buf l" buf] skip_spaces_ge [of "snd ?c" "fst ?c"]
    by linarith
  with at_in_range [OF a]
  show "((fst ?c, skip_spaces (fst ?c) (snd ?c), a + 1, x2), (buf, l, a, argv))
          \<in> measure (\<lambda>(buf, l, a, argv). length buf - l)"
    by (simp add: cut_close_length)
next
  fix buf :: string and l a :: nat and argv x2 :: "slot list"
  assume a: "at buf l \<noteq> NUL"
  let ?c = "cut_close SP buf (l + 1)"
  have "l + 1 \<le> skip_spaces (fst ?c) (snd ?c)"
    using cut_close_ge [of "l + 1" SP buf] skip_spaces_ge [of "snd ?c" "fst ?c"]
    by linarith
  with at_in_range [OF a]
  show "((fst ?c, skip_spaces (fst ?c) (snd ?c), a + 1, x2), (buf, l, a, argv))
          \<in> measure (\<lambda>(buf, l, a, argv). length buf - l)"
    by (simp add: cut_close_length)
qed

declare process_args.simps [simp del]

text \<open>\<^verbatim>\<open>strrchr(p, c)\<close> for the C string at offset \<open>off\<close>: the offset of the last \<open>c\<close>, or NULL.\<close>

fun last_index :: "char \<Rightarrow> string \<Rightarrow> nat option" where
  "last_index c [] = None"
| "last_index c (x # xs) =
     (case last_index c xs of
        Some k \<Rightarrow> Some (Suc k)
      | None \<Rightarrow> if x = c then Some 0 else None)"

definition strrchr :: "string \<Rightarrow> nat \<Rightarrow> char \<Rightarrow> nat option" where
  "strrchr buf off c = map_option (\<lambda>k. off + k) (last_index c (cstr (drop off buf)))"

text \<open>
  What \<^verbatim>\<open>ParseCommand\<close> hands back on success: the command buffer (\<^verbatim>\<open>*command\<close>), the
  program name as an offset into it (\<^verbatim>\<open>*file\<close>), and the argument vector (\<^verbatim>\<open>*argv\<close>);
  the field names carry a prefix because \<open>file\<close> is a keyword.
\<close>

record parsed =
  p_buffer :: string
  p_file :: nat
  p_argv :: "slot list"

text \<open>
  \<^verbatim>\<open>ParseCommand\<close>. \<open>alloc_ok\<close> says whether its two \<^verbatim>\<open>malloc\<close> calls succeed. The result
  is a fault, \<open>Inr None\<close> for the return value -1, or \<open>Inr (Some p)\<close> for 0.

  The test \<^verbatim>\<open>if (!file[0])\<close> under the comment "Is there any command at all" reads the
  pointer \<^verbatim>\<open>*file\<close>, which was set to \<^verbatim>\<open>*command + l\<close> just before: the pointer is kept
  here as an option to show the test as it is written.
\<close>

definition ParseCommand :: "bool \<Rightarrow> string \<Rightarrow> fault + parsed option" where
  "ParseCommand alloc_ok command_string =
     (if \<not> alloc_ok then Inr None
      else
        let command0 = cstr command_string @ [NUL];
            l0 = skip_spaces command0 0;
            file_ptr = Some l0;
            l1 = find_space command0 l0;
            command1 = (if at command0 l1 \<noteq> NUL then command0[l1 := NUL] else command0);
            l2 = (if at command0 l1 \<noteq> NUL then l1 + 1 else l1)
        in if file_ptr = None then Inr None
           else
             let arg_start = skip_spaces command1 l2;
                 args = (if at command1 arg_start \<noteq> NUL then count_args command1 arg_start 1 else 1);
                 argv0 = replicate (args + 1) Uninit;
                 argv1 = argv0[0 := (case strrchr command1 l0 SLASH of
                                       Some k \<Rightarrow> Ptr (k + 1)
                                     | None \<Rightarrow> Ptr l0)];
                 argv2 = argv1[args := Null]
             in if args > 1 then
                  (case process_args command1 arg_start 1 argv2 of
                     Inl f \<Rightarrow> Inl f
                   | Inr (command2, argv3) \<Rightarrow>
                       Inr (Some \<lparr>p_buffer = command2, p_file = l0, p_argv = argv3\<rparr>))
                else Inr (Some \<lparr>p_buffer = command1, p_file = l0, p_argv = argv2\<rparr>))"

text \<open>The C string at an offset of the buffer, and the argument vector as strings.\<close>

definition cstr_at :: "string \<Rightarrow> nat \<Rightarrow> string" where
  "cstr_at buf off = cstr (drop off buf)"

definition base_name :: "parsed \<Rightarrow> string" where
  "base_name p = cstr_at (p_buffer p) (p_file p)"

definition slot_string :: "string \<Rightarrow> slot \<Rightarrow> string option" where
  "slot_string buf s = (case s of Ptr off \<Rightarrow> Some (cstr_at buf off) | Null \<Rightarrow> None | Uninit \<Rightarrow> None)"

definition argv_strings :: "parsed \<Rightarrow> string option list" where
  "argv_strings p = map (slot_string (p_buffer p)) (p_argv p)"

section \<open>The operating system as seen by one call\<close>

text \<open>
  The wait status that \<^verbatim>\<open>waitpid\<close> stores, a C \<^verbatim>\<open>int\<close>, and the macros of
  \<^verbatim>\<open><sys/wait.h>\<close> that the code applies to it, with the encoding Linux uses: the low
  seven bits hold the terminating signal (0 after a normal exit, \<open>0x7f\<close> for a stopped
  child), bit 7 the core-dump flag, bits 8 to 15 the exit code or the stop signal.
\<close>

type_synonym wstatus = "32 word"

definition WIFEXITED :: "wstatus \<Rightarrow> bool" where
  "WIFEXITED s = (s AND 0x7f = 0)"

definition WEXITSTATUS :: "wstatus \<Rightarrow> wstatus" where
  "WEXITSTATUS s = drop_bit 8 (s AND 0xff00)"

definition WIFSIGNALED :: "wstatus \<Rightarrow> bool" where
  "WIFSIGNALED s = (0 <s signed_drop_bit 1 (ucast ((s AND 0x7f) + 1) :: 8 word))"

definition WIFSTOPPED :: "wstatus \<Rightarrow> bool" where
  "WIFSTOPPED s = (s AND 0xff = 0x7f)"

definition WSTOPSIG :: "wstatus \<Rightarrow> wstatus" where
  "WSTOPSIG s = WEXITSTATUS s"

definition SIGTTIN :: wstatus where
  "SIGTTIN = 21"

text \<open>What happens to a child, and the status the kernel reports for it.\<close>

datatype child_event =
    Exited "8 word"
  | Signaled "8 word" bool
  | Stopped "8 word"
  | Continued

fun status_of :: "child_event \<Rightarrow> wstatus" where
  "status_of (Exited code) = push_bit 8 (ucast code)"
| "status_of (Signaled sig core) = ucast sig OR (if core then 0x80 else 0)"
| "status_of (Stopped sig) = push_bit 8 (ucast sig) OR 0x7f"
| "status_of Continued = 0xffff"

declare status_of.simps [simp del]

text \<open>One \<^verbatim>\<open>waitpid\<close> call: it fails, or it reports a status.\<close>

datatype wait_result = WaitFail | WaitStatus wstatus

text \<open>\<^verbatim>\<open>struct stat\<close>, the fields \<^verbatim>\<open>ExeFound\<close> reads, and the mode bits of \<^verbatim>\<open><sys/stat.h>\<close>.\<close>

record stat =
  st_mode :: "32 word"
  st_uid :: "32 word"
  st_gid :: "32 word"

definition S_ISREG :: "32 word \<Rightarrow> bool" where
  "S_ISREG m = (m AND 0xF000 = 0x8000)"

definition S_IXUSR :: "32 word" where
  "S_IXUSR = 0x40"

definition S_IXGRP :: "32 word" where
  "S_IXGRP = 0x08"

definition S_IXOTH :: "32 word" where
  "S_IXOTH = 0x01"

text \<open>
  Everything outside the process that one call of \<^verbatim>\<open>shellspawn\<close> observes.
  \<^item> \<open>fails n\<close>: the system or library call whose failure the source reports as
    "Failure U\<open>n\<close>" fails (U18: the allocations inside \<^verbatim>\<open>ParseCommand\<close>).
  \<^item> \<open>PATH\<close>: \<^verbatim>\<open>getenv("PATH")\<close>.
  \<^item> \<open>stat_try\<close>: the result of the time-bounded \<^verbatim>\<open>stat\<close>; \<open>None\<close> when it returns
    non-zero (no such entry, or interrupted by the alarm).
  \<^item> \<open>geteuid\<close>, \<open>getegid\<close>: the effective user and group.
  \<^item> \<open>child_waits\<close>: what successive \<^verbatim>\<open>waitpid\<close> calls on the child return to the
    process that waits for it; when the list is used up the call blocks for ever.
  \<^item> \<open>out_reads\<close>, \<open>err_reads\<close>: what the reads on the child's stdout and stderr pipes
    return.
  \<^item> \<open>stdin_closed\<close>: a write to the child's stdin fails with \<^verbatim>\<open>EPIPE\<close>.
\<close>

record os =
  fails :: "nat \<Rightarrow> bool"
  PATH :: "string option"
  stat_try :: "string \<Rightarrow> stat option"
  geteuid :: "32 word"
  getegid :: "32 word"
  child_waits :: "wait_result list"
  out_reads :: "read_result list"
  err_reads :: "read_result list"
  stdin_closed :: bool

section \<open>Finding the executable\<close>

definition ExeFound :: "os \<Rightarrow> string \<Rightarrow> bool" where
  "ExeFound w exe =
     (case stat_try w exe of
        None \<Rightarrow> False
      | Some stat_p \<Rightarrow>
          if \<not> S_ISREG (st_mode stat_p) then False
          else if \<not> ((st_mode stat_p AND S_IXUSR \<noteq> 0 \<and> st_uid stat_p = geteuid w)
                    \<or> (st_mode stat_p AND S_IXGRP \<noteq> 0 \<and> st_gid stat_p = getegid w)
                    \<or> st_mode stat_p AND S_IXOTH \<noteq> 0) then False
          else True)"

text \<open>\<^verbatim>\<open>*env\<close> for the rest of the PATH string: its first character, NUL at its end.\<close>

definition deref :: "string \<Rightarrow> char" where
  "deref env = (case env of [] \<Rightarrow> NUL | c # _ \<Rightarrow> c)"

text \<open>
  The PATH loop of \<^verbatim>\<open>shellspawn\<close>:
  \<^verbatim>\<open>while (env && *env != ':') { for (i = 0; (file_path[i] = *env); i++, env++)
      if (*env == ':') { file_path[i] = 0; break; }
    strcat(file_path, "/"); strcat(file_path, base_name);
    if (ExeFound(file_path)) { commandFound = 1; break; } }\<close>
  The inner loop copies the characters before the next colon and leaves \<open>env\<close> at that
  colon, or at the terminating NUL. Nothing bounds the number of passes, so the loop is a
  partial function: \<open>None\<close> is a loop that never ends, \<open>Some None\<close> is
  \<open>commandFound = 0\<close>, \<open>Some (Some p)\<close> is \<open>commandFound = 1\<close> with \<open>file_path = p\<close>.
\<close>

partial_function (option) path_loop :: "(string \<Rightarrow> bool) \<Rightarrow> string \<Rightarrow> string \<Rightarrow> string option option" where
  "path_loop found base env =
     (if deref env \<noteq> COLON then
        (if found (takeWhile (\<lambda>c. c \<noteq> COLON) env @ [SLASH] @ base)
         then Some (Some (takeWhile (\<lambda>c. c \<noteq> COLON) env @ [SLASH] @ base))
         else path_loop found base (dropWhile (\<lambda>c. c \<noteq> COLON) env))
      else Some None)"

text \<open>
  The resolution step of \<^verbatim>\<open>shellspawn\<close>: the program name as it is, then the PATH loop
  unless the name starts with a slash.
\<close>

definition resolve :: "os \<Rightarrow> string \<Rightarrow> string option option" where
  "resolve w base =
     (if ExeFound w base then Some (Some base)
      else if deref base \<noteq> SLASH then
        (case PATH w of
           None \<Rightarrow> Some None
         | Some env \<Rightarrow> path_loop (ExeFound w) base (cstr env))
      else Some None)"

section \<open>Waiting for the child\<close>

text \<open>
  The loop of \<^verbatim>\<open>WaitForProcess\<close>:
  \<^verbatim>\<open>do { w = waitpid(pid, &status, WUNTRACED | WCONTINUED); if (w == -1) ... return; }
    while (!WIFEXITED(status) && !WIFSIGNALED(status));\<close>
  \<open>None\<close>: the call never returns; \<open>Some None\<close>: \<^verbatim>\<open>waitpid\<close> failed (U43);
  \<open>Some (Some s)\<close>: the loop ended with status \<open>s\<close>.
\<close>

fun wait_loop :: "wait_result list \<Rightarrow> wstatus option option" where
  "wait_loop [] = None"
| "wait_loop (WaitFail # rest) = Some None"
| "wait_loop (WaitStatus s # rest) =
     (if \<not> WIFEXITED s \<and> \<not> WIFSIGNALED s then wait_loop rest else Some (Some s))"

text \<open>
  \<^verbatim>\<open>ProxyWorker\<close>, the loop of the proxy process that stands between the caller and the
  child when the input is a callback. At a stop with \<^verbatim>\<open>SIGTTIN\<close> the proxy hands the
  terminal over and back (\<^verbatim>\<open>select\<close>, \<^verbatim>\<open>tcsetpgrp\<close>, \<^verbatim>\<open>kill\<close>, \<^verbatim>\<open>read\<close>; failures U72
  to U84), which is summarised by \<open>handover_fails\<close>. The result is the value the proxy
  passes to \<^verbatim>\<open>exit\<close>.
\<close>

definition handover_fails :: "os \<Rightarrow> bool" where
  "handover_fails w = (\<exists>n \<in> {72..84}. fails w n)"

fun ProxyWorker :: "os \<Rightarrow> wait_result list \<Rightarrow> wstatus option" where
  "ProxyWorker w [] = None"
| "ProxyWorker w (WaitFail # rest) = Some (- 1)"
| "ProxyWorker w (WaitStatus s # rest) =
     (if WIFSTOPPED s \<and> WSTOPSIG s = SIGTTIN \<and> handover_fails w then Some (- 1)
      else if \<not> WIFEXITED s \<and> \<not> WIFSIGNALED s then ProxyWorker w rest
      else Some (WEXITSTATUS s))"

text \<open>
  What \<^verbatim>\<open>waitpid\<close> on the proxy returns to the caller's process: the proxy ends with
  \<^verbatim>\<open>exit(childrc)\<close>, so its status is a normal exit with the low eight bits of that value.
  (A failing \<^verbatim>\<open>waitpid\<close> on the child is the entry \<open>WaitFail\<close> of \<open>child_waits\<close>; on the
  proxy it is \<open>fails 43\<close>.)
\<close>

definition proxy_waits :: "os \<Rightarrow> wait_result list" where
  "proxy_waits w =
     (if fails w 43 then [WaitFail]
      else case ProxyWorker w (child_waits w) of
             None \<Rightarrow> []
           | Some childrc \<Rightarrow> [WaitStatus (status_of (Exited (ucast childrc)))])"

declare path_loop.simps [code]

section \<open>The call\<close>

definition SHELLSPAWN_OK :: int where
  "SHELLSPAWN_OK = 0"

definition SHELLSPAWN_TOOMANYIN :: int where
  "SHELLSPAWN_TOOMANYIN = 1"

definition SHELLSPAWN_TOOMANYOUT :: int where
  "SHELLSPAWN_TOOMANYOUT = 2"

definition SHELLSPAWN_TOOMANYERR :: int where
  "SHELLSPAWN_TOOMANYERR = 3"

definition SHELLSPAWN_NOFOUND :: int where
  "SHELLSPAWN_NOFOUND = 4"

definition SHELLSPAWN_FAILURE :: int where
  "SHELLSPAWN_FAILURE = 5"

text \<open>
  The arguments of \<^verbatim>\<open>shellspawn\<close> together with the caller's memory they point to.
  \<^item> \<open>aIn\<close>, \<open>sIn\<close>: NULL or the input lines / the input string.
  \<^item> \<open>fIn\<close>, \<open>fOut\<close>, \<open>fErr\<close>: whether a callback is given.
  \<^item> \<open>pIn\<close>, \<open>pOut\<close>, \<open>pErr\<close>: NULL or a \<^verbatim>\<open>FILE*\<close>, kept as its \<^verbatim>\<open>fileno\<close>.
  \<^item> \<open>aOut\<close>, \<open>aErr\<close>: NULL or the address of the caller's \<^verbatim>\<open>STRINGARRAY*\<close>, kept as the
    value stored there (NULL or an array); \<open>sOut\<close>, \<open>sErr\<close> likewise for \<^verbatim>\<open>char*\<close>. The four
    holders are taken to be distinct objects.
  \<^item> \<open>rc\<close>: the value stored at \<^verbatim>\<open>rc\<close>.
  The text stored at \<^verbatim>\<open>errorText\<close> is not modelled.
\<close>

record call =
  command :: string
  aIn :: "string list option"
  sIn :: "string option"
  fIn :: bool
  pIn :: "int option"
  aOut :: "string list option option"
  sOut :: "string option option"
  fOut :: bool
  pOut :: "int option"
  aErr :: "string list option option"
  sErr :: "string option option"
  fErr :: bool
  pErr :: "int option"
  rc :: int

text \<open>What the call creates, in order; \<open>SyncCreated n\<close> is the primitive whose failure is U\<open>n\<close>.\<close>

datatype stream = StdIn | StdOut | StdErr | ProxySend | ProxyReceive

datatype worker = OutThread | ErrThread | InThread | WaitThread

datatype event =
    SyncCreated nat
  | PipeCreated stream
  | PtyOpened
  | PtyGranted
  | PtyUnlocked
  | ProxyForked
  | ChildForked
  | ThreadStarted worker
  | CleanedUp

text \<open>
  What a call that returns leaves behind: the return value, the caller's memory, and
  what was created on the way.
\<close>

record outcome =
  status :: int
  post :: call
  events :: "event list"

datatype result = Returned outcome | Undefined fault

text \<open>\<^verbatim>\<open>(a ? 1 : 0) + (s ? 1 : 0) + (f ? 1 : 0) + (p ? 1 : 0)\<close>\<close>

definition bindings :: "bool \<Rightarrow> bool \<Rightarrow> bool \<Rightarrow> bool \<Rightarrow> nat" where
  "bindings a s f p =
     (if a then 1 else 0) + (if s then 1 else 0) + (if f then 1 else 0) + (if p then 1 else 0)"

definition bindings_in :: "call \<Rightarrow> nat" where
  "bindings_in c = bindings (aIn c \<noteq> None) (sIn c \<noteq> None) (fIn c) (pIn c \<noteq> None)"

definition bindings_out :: "call \<Rightarrow> nat" where
  "bindings_out c = bindings (aOut c \<noteq> None) (sOut c \<noteq> None) (fOut c) (pOut c \<noteq> None)"

definition bindings_err :: "call \<Rightarrow> nat" where
  "bindings_err c = bindings (aErr c \<noteq> None) (sErr c \<noteq> None) (fErr c) (pErr c \<noteq> None)"

text \<open>The three checks under "Validate inputs": the status to return, if any.\<close>

definition validate :: "call \<Rightarrow> int option" where
  "validate c =
     (if bindings_in c > 1 then Some SHELLSPAWN_TOOMANYIN
      else if bindings_out c > 1 then Some SHELLSPAWN_TOOMANYOUT
      else if bindings_err c > 1 then Some SHELLSPAWN_TOOMANYERR
      else None)"

text \<open>"Clear any output strings": a holder that is given and not NULL is freed and set to NULL.\<close>

definition clear_array :: "string list option option \<Rightarrow> string list option option" where
  "clear_array h = (case h of Some (Some xs) \<Rightarrow> Some None | _ \<Rightarrow> h)"

definition clear_string :: "string option option \<Rightarrow> string option option" where
  "clear_string h = (case h of Some (Some s) \<Rightarrow> Some None | _ \<Rightarrow> h)"

definition clear_outputs :: "call \<Rightarrow> call" where
  "clear_outputs c =
     c\<lparr>aOut := clear_array (aOut c), aErr := clear_array (aErr c),
       sOut := clear_string (sOut c), sErr := clear_string (sErr c)\<rparr>"

definition hOutputFile :: "call \<Rightarrow> int" where
  "hOutputFile c = (case pOut c of Some fd \<Rightarrow> fd | None \<Rightarrow> - 1)"

definition hErrorFile :: "call \<Rightarrow> int" where
  "hErrorFile c = (case pErr c of Some fd \<Rightarrow> fd | None \<Rightarrow> - 1)"

definition hInputFile :: "call \<Rightarrow> int" where
  "hInputFile c = (case pIn c of Some fd \<Rightarrow> fd | None \<Rightarrow> - 1)"

definition any_callback :: "call \<Rightarrow> bool" where
  "any_callback c =
     ((if fIn c then 1 else 0) + (if fOut c then 1 else 0) + (if fErr c then 1 else (0::nat)) > 0)"

text \<open>
  A run of calls, each of which may fail: the log of what was created, and whether all
  succeeded. At the first failure the code cleans up and returns.
\<close>

fun attempt :: "(nat \<Rightarrow> bool) \<Rightarrow> (nat \<times> event) list \<Rightarrow> event list \<Rightarrow> event list \<times> bool" where
  "attempt fl [] log = (log, True)"
| "attempt fl ((u, e) # rest) log = (if fl u then (log, False) else attempt fl rest (log @ [e]))"

text \<open>The condition variables and mutexes, then the pipes or the pseudo-terminal, in source order.\<close>

definition setup_calls :: "call \<Rightarrow> (nat \<times> event) list" where
  "setup_calls c =
     (if any_callback c
      then [(5, SyncCreated 5), (6, SyncCreated 6), (7, SyncCreated 7), (8, SyncCreated 8),
            (9, SyncCreated 9)]
      else [])
     @ (if pOut c \<noteq> None then [] else [(10, PipeCreated StdOut)])
     @ (if pErr c \<noteq> None then [] else [(11, PipeCreated StdErr)])
     @ (if pIn c \<noteq> None then []
        else if fIn c
        then [(12, PtyOpened), (13, PtyGranted), (14, PtyUnlocked), (15, PipeCreated ProxySend),
              (16, PipeCreated ProxyReceive)]
        else [(17, PipeCreated StdIn)])"

text \<open>
  The launch. With an input callback the call forks the proxy, which sets up the terminal
  (failures U23 to U29), forks the child (U30) and sends the child's pid (U31); the caller
  reads the pid (U32). Otherwise the call forks the child itself (U33).
\<close>

definition launch :: "os \<Rightarrow> call \<Rightarrow> event list \<Rightarrow> event list \<times> bool" where
  "launch w c log =
     (if fIn c then
        (if fails w 22 then (log, False)
         else if \<exists>n \<in> {23..30}. fails w n then (log @ [ProxyForked], False)
         else if fails w 31 \<or> fails w 32 then (log @ [ProxyForked, ChildForked], False)
         else (log @ [ProxyForked, ChildForked], True))
      else if fails w 33 then (log, False)
      else (log @ [ChildForked], True))"

definition thread_calls :: "call \<Rightarrow> (nat \<times> event) list" where
  "thread_calls c =
     (if hOutputFile c = - 1 then [(34, ThreadStarted OutThread)] else [])
     @ (if hErrorFile c = - 1 then [(35, ThreadStarted ErrThread)] else [])
     @ (if hInputFile c = - 1 then [(36, ThreadStarted InThread)] else [])
     @ (if any_callback c then [(37, ThreadStarted WaitThread)] else [])"

text \<open>
  \<^verbatim>\<open>HandleOutputToCallback\<close>: every non-empty chunk goes to the caller's thread through
  the rendezvous (failures U50 to U57). The result is the worker's error flag.
\<close>

fun HandleOutputToCallback :: "os \<Rightarrow> read_result list \<Rightarrow> int" where
  "HandleOutputToCallback w [] = 0"
| "HandleOutputToCallback w (ReadError # rest) = 1"
| "HandleOutputToCallback w (ReadBytes bytes # rest) =
     (if length bytes = 0 then 0
      else if \<exists>n \<in> {50..57}. fails w n then 1
      else HandleOutputToCallback w rest)"

text \<open>
  \<^verbatim>\<open>HandleOutputThread\<close> and \<^verbatim>\<open>HandleErrorThread\<close>: the holders after the worker has
  ended, and its error flag.
\<close>

definition output_worker ::
  "os \<Rightarrow> read_result list \<Rightarrow> string list option option \<Rightarrow> string option option \<Rightarrow> bool
     \<Rightarrow> string list option option \<times> string option option \<times> int" where
  "output_worker w reads aHolder sHolder f =
     (case aHolder of
        Some arr \<Rightarrow>
          (case HandleOutputToVector reads arr of (arr', e) \<Rightarrow> (Some arr', sHolder, e))
      | None \<Rightarrow>
          (case sHolder of
             Some str \<Rightarrow>
               (case HandleOutputToString reads (Some str) of (s', e) \<Rightarrow> (aHolder, s', e))
           | None \<Rightarrow>
               if f then (aHolder, sHolder, HandleOutputToCallback w reads)
               else (aHolder, sHolder, snd (HandleOutputToString reads None))))"

text \<open>
  \<^verbatim>\<open>WriteToStdin\<close>: the return value and whether \<open>inThreadRC\<close> was set. Nothing is
  written for an empty string; a write to a closed pipe returns 1 without an error.
\<close>

definition WriteToStdin :: "os \<Rightarrow> string \<Rightarrow> int \<times> bool" where
  "WriteToStdin w line =
     (if fails w 69 then (- 1, True)
      else if cstr line = [] then (0, False)
      else if stdin_closed w then (1, False)
      else if fails w 70 then (- 1, True)
      else (0, False))"

fun HandleStdinFromVector :: "os \<Rightarrow> string list \<Rightarrow> bool" where
  "HandleStdinFromVector w [] = False"
| "HandleStdinFromVector w (line # rest) =
     (case WriteToStdin w line of
        (r1, e1) \<Rightarrow>
          if r1 \<noteq> 0 then e1
          else (case WriteToStdin w [NL] of
                  (r2, e2) \<Rightarrow> if r2 \<noteq> 0 then e2 else HandleStdinFromVector w rest))"

text \<open>
  \<^verbatim>\<open>HandleInputThread\<close>: whether the input worker set \<open>inThreadRC\<close>. The callback mode
  (\<^verbatim>\<open>HandleStdinFromCallback\<close>, failures U58 to U70) is summarised.
\<close>

definition HandleInputThread :: "os \<Rightarrow> call \<Rightarrow> bool" where
  "HandleInputThread w c =
     (case aIn c of
        Some lines \<Rightarrow> HandleStdinFromVector w lines
      | None \<Rightarrow>
          (case sIn c of
             Some s \<Rightarrow> snd (WriteToStdin w s)
           | None \<Rightarrow> if fIn c then (\<exists>n \<in> {58..70}. fails w n) else False))"

text \<open>
  \<^verbatim>\<open>WaitForProcess\<close>: \<open>None\<close> when it never returns, else \<open>waitThreadRC\<close> and
  \<open>ChildProcessRC\<close>. With an input callback the process waited for is the proxy.
\<close>

definition WaitForProcess :: "os \<Rightarrow> call \<Rightarrow> (bool \<times> int) option" where
  "WaitForProcess w c =
     (case wait_loop (if fIn c then proxy_waits w else child_waits w) of
        None \<Rightarrow> None
      | Some None \<Rightarrow> Some (True, 0)
      | Some (Some st) \<Rightarrow>
          Some ((hOutputFile c = - 1 \<and> fails w 44) \<or> (hErrorFile c = - 1 \<and> fails w 45)
                  \<or> (hInputFile c = - 1 \<and> fails w 46),
                sint (WEXITSTATUS st)))"

text \<open>
  The caller's memory once the workers have been joined, with the three error flags
  \<open>inThreadRC\<close>, \<open>outThreadRC\<close>, \<open>errThreadRC\<close>. A worker exists only for a stream
  without a file handle.
\<close>

definition joined :: "os \<Rightarrow> call \<Rightarrow> call \<times> bool \<times> bool \<times> bool" where
  "joined w c =
     (let (ao, so, eo) = (if hOutputFile c = - 1
                          then output_worker w (out_reads w) (aOut c) (sOut c) (fOut c)
                          else (aOut c, sOut c, 0));
          (ae, se, ee) = (if hErrorFile c = - 1
                          then output_worker w (err_reads w) (aErr c) (sErr c) (fErr c)
                          else (aErr c, sErr c, 0));
          ie = (hInputFile c = - 1 \<and> HandleInputThread w c)
      in (c\<lparr>aOut := ao, sOut := so, aErr := ae, sErr := se\<rparr>, ie, eo \<noteq> 0, ee \<noteq> 0))"

text \<open>
  From the launch to the return. A worker that \<^verbatim>\<open>CleanUp\<close> cancels before it was joined
  is taken to have stored nothing.
\<close>

definition supervise :: "os \<Rightarrow> call \<Rightarrow> event list \<Rightarrow> result option" where
  "supervise w c log =
     (case launch w c log of
        (log1, False) \<Rightarrow>
          Some (Returned \<lparr>status = SHELLSPAWN_FAILURE, post = c, events = log1 @ [CleanedUp]\<rparr>)
      | (log1, True) \<Rightarrow>
          (case attempt (fails w) (thread_calls c) log1 of
             (log2, False) \<Rightarrow>
               Some (Returned \<lparr>status = SHELLSPAWN_FAILURE, post = c, events = log2 @ [CleanedUp]\<rparr>)
           | (log2, True) \<Rightarrow>
               if any_callback c \<and> (\<exists>n \<in> {38..42}. fails w n) then
                 Some (Returned \<lparr>status = SHELLSPAWN_FAILURE, post = c, events = log2 @ [CleanedUp]\<rparr>)
               else
                 (case WaitForProcess w c of
                    None \<Rightarrow> None
                  | Some (waitThreadRC, ChildProcessRC) \<Rightarrow>
                      if waitThreadRC then
                        Some (Returned \<lparr>status = SHELLSPAWN_FAILURE, post = c,
                                         events = log2 @ [CleanedUp]\<rparr>)
                      else
                        (case joined w c of
                           (c', inThreadRC, outThreadRC, errThreadRC) \<Rightarrow>
                             if inThreadRC then
                               Some (Returned \<lparr>status = SHELLSPAWN_FAILURE, post = c', events = log2\<rparr>)
                             else if outThreadRC then
                               Some (Returned \<lparr>status = SHELLSPAWN_FAILURE, post = c', events = log2\<rparr>)
                             else if errThreadRC then
                               Some (Returned \<lparr>status = SHELLSPAWN_FAILURE, post = c', events = log2\<rparr>)
                             else
                               Some (Returned \<lparr>status = SHELLSPAWN_OK,
                                                post = c'\<lparr>rc := ChildProcessRC\<rparr>,
                                                events = log2\<rparr>)))))"

text \<open>
  \<^verbatim>\<open>shellspawn\<close>. \<open>None\<close>: the call never returns. \<open>Some (Undefined f)\<close>: the call runs
  into the fault \<open>f\<close>. \<open>Some (Returned r)\<close>: it returns with \<open>r\<close>.
\<close>

definition shellspawn :: "os \<Rightarrow> call \<Rightarrow> result option" where
  "shellspawn w c =
     (case validate c of
        Some st \<Rightarrow> Some (Returned \<lparr>status = st, post = c, events = []\<rparr>)
      | None \<Rightarrow>
          (case attempt (fails w) (setup_calls c) [] of
             (log, False) \<Rightarrow>
               Some (Returned \<lparr>status = SHELLSPAWN_FAILURE, post = clear_outputs c,
                                events = log @ [CleanedUp]\<rparr>)
           | (log, True) \<Rightarrow>
               (case ParseCommand (\<not> fails w 18) (command c) of
                  Inl f \<Rightarrow> Some (Undefined f)
                | Inr None \<Rightarrow>
                    Some (Returned \<lparr>status = SHELLSPAWN_NOFOUND, post = clear_outputs c,
                                     events = log @ [CleanedUp]\<rparr>)
                | Inr (Some p) \<Rightarrow>
                    (case resolve w (base_name p) of
                       None \<Rightarrow> None
                     | Some None \<Rightarrow>
                         Some (Returned \<lparr>status = SHELLSPAWN_NOFOUND, post = clear_outputs c,
                                          events = log @ [CleanedUp]\<rparr>)
                     | Some (Some file_path) \<Rightarrow> supervise w (clear_outputs c) log))))"

section \<open>Example environments\<close>

text \<open>
  A file system in which exactly the listed paths are regular files that everyone may
  execute (mode 0100755); every other \<^verbatim>\<open>stat\<close> fails.
\<close>

definition exec_files :: "string list \<Rightarrow> string \<Rightarrow> stat option" where
  "exec_files paths p =
     (if p \<in> set paths then Some \<lparr>st_mode = 0x81ED, st_uid = 0, st_gid = 0\<rparr> else None)"

text \<open>
  An operating system in which no call fails, with the given PATH, executables and
  \<^verbatim>\<open>waitpid\<close> results; the child writes nothing.
\<close>

definition quiet_os :: "string option \<Rightarrow> string list \<Rightarrow> wait_result list \<Rightarrow> os" where
  "quiet_os path paths waits =
     \<lparr>fails = (\<lambda>n. False), PATH = path, stat_try = exec_files paths,
      geteuid = 1000, getegid = 1000, child_waits = waits,
      out_reads = [], err_reads = [], stdin_closed = False\<rparr>"

text \<open>A call with the given command, no binding on any stream, and 77 stored at \<^verbatim>\<open>rc\<close>.\<close>

definition plain_call :: "string \<Rightarrow> call" where
  "plain_call cmd =
     \<lparr>command = cmd, aIn = None, sIn = None, fIn = False, pIn = None,
      aOut = None, sOut = None, fOut = False, pOut = None,
      aErr = None, sErr = None, fErr = False, pErr = None, rc = 77\<rparr>"

text \<open>What the caller sees of a call: the return value and the value at \<^verbatim>\<open>rc\<close>.\<close>

definition reported :: "result option \<Rightarrow> (int \<times> int) option" where
  "reported r =
     (case r of
        Some (Returned x) \<Rightarrow> Some (status x, rc (post x))
      | _ \<Rightarrow> None)"

section \<open>Conditions on a call and its environment\<close>

text \<open>Every allocation of pipes, terminal and synchronisation primitives succeeds.\<close>

definition setup_ok :: "os \<Rightarrow> call \<Rightarrow> bool" where
  "setup_ok w c = snd (attempt (fails w) (setup_calls c) [])"

text \<open>
  The resolver ends without an executable: \<^verbatim>\<open>ParseCommand\<close> returns -1, or neither the
  program name as given nor the PATH loop yields one (\<open>commandFound = 0\<close>).
\<close>

definition unresolved :: "os \<Rightarrow> call \<Rightarrow> bool" where
  "unresolved w c =
     (case ParseCommand (\<not> fails w 18) (command c) of
        Inl f \<Rightarrow> False
      | Inr None \<Rightarrow> True
      | Inr (Some p) \<Rightarrow> resolve w (base_name p) = Some None)"

text \<open>The resolver ends with an executable (\<open>commandFound = 1\<close>).\<close>

definition resolved :: "os \<Rightarrow> call \<Rightarrow> bool" where
  "resolved w c =
     (case ParseCommand (\<not> fails w 18) (command c) of
        Inl f \<Rightarrow> False
      | Inr None \<Rightarrow> False
      | Inr (Some p) \<Rightarrow> (case resolve w (base_name p) of Some (Some file_path) \<Rightarrow> True | _ \<Rightarrow> False))"

text \<open>
  The child stops and continues some number of times and then ends with status \<open>s\<close>:
  the \<^verbatim>\<open>waitpid\<close> results are statuses that are neither an exit nor a death by signal,
  followed by \<open>s\<close>.
\<close>

definition ends_with :: "wait_result list \<Rightarrow> wstatus \<Rightarrow> bool" where
  "ends_with waits s =
     (\<exists>n < length waits.
        waits ! n = WaitStatus s
        \<and> (\<forall>i < n. \<exists>t. waits ! i = WaitStatus t \<and> \<not> WIFEXITED t \<and> \<not> WIFSIGNALED t))"

text \<open>No call fails and no read on the child's output fails.\<close>

definition undisturbed :: "os \<Rightarrow> bool" where
  "undisturbed w =
     ((\<forall>n. \<not> fails w n) \<and> ReadError \<notin> set (out_reads w) \<and> ReadError \<notin> set (err_reads w))"

section \<open>Properties of the output workers\<close>

lemma split_acc_not_Nil: "split_acc cur B \<noteq> []"
  by (induction B arbitrary: cur) auto

lemma split_acc_join:
  "foldr (\<lambda>f r. f @ NL # r) (butlast (split_acc cur B)) (last (split_acc cur B)) = cur @ B"
  by (induction B arbitrary: cur) (auto simp: split_acc_not_Nil)

lemma split_acc_fields:
  "NL \<notin> set cur \<Longrightarrow> f \<in> set (split_acc cur B) \<Longrightarrow> NL \<notin> set f"
proof (induction B arbitrary: cur)
  case Nil
  then show ?case by simp
next
  case (Cons c B)
  show ?case
  proof (cases "c = NL")
    case True
    with Cons.prems have "f = cur \<or> f \<in> set (split_acc [] B)" by simp
    then show ?thesis using Cons.prems(1) Cons.IH [of "[]"] by auto
  next
    case False
    with Cons.prems have "f \<in> set (split_acc (cur @ [c]) B)" by simp
    moreover have "NL \<notin> set (cur @ [c])" using False Cons.prems(1) by auto
    ultimately show ?thesis by (rule Cons.IH [rotated])
  qed
qed

lemma split_nl_join:
  "foldr (\<lambda>f r. f @ NL # r) (butlast (split_nl B)) (last (split_nl B)) = B"
  using split_acc_join [of "[]" B] by (simp add: split_nl_def)

lemma split_nl_fields: "f \<in> set (split_nl B) \<Longrightarrow> NL \<notin> set f"
  using split_acc_fields [of "[]" f B] by (simp add: split_nl_def)

lemma lines_of_examples:
  "lines_of [] = []"
  "lines_of (''a'' @ [NL]) = [''a'']"
  "lines_of (''a'' @ [NL, NL]) = [''a'', []]"
  "lines_of (''a'' @ [NL] @ ''b'') = [''a'', ''b'']"
  by (simp_all add: lines_of_def split_nl_def NL_def)

lemma cstr_nonul: "NUL \<notin> set s \<Longrightarrow> cstr (s @ NUL # t) = s"
  by (induction s) (auto simp: cstr_def)

lemma foldl_astep_plain: "NL \<notin> set s \<Longrightarrow> foldl astep (p, a) s = (p @ s, a)"
  by (induction s arbitrary: p) auto

lemma foldl_astep_split:
  "foldl astep (p, a) B = (p', a') \<Longrightarrow> a @ split_acc p B = a' @ [p']"
proof (induction B arbitrary: p a)
  case Nil
  then show ?case by simp
next
  case (Cons c B)
  show ?case
  proof (cases "c = NL")
    case True
    with Cons.prems have "foldl astep ([], a @ [p]) B = (p', a')" by simp
    from Cons.IH [OF this] True show ?thesis by simp
  next
    case False
    with Cons.prems have "foldl astep (p @ [c], a) B = (p', a')" by simp
    from Cons.IH [OF this] False show ?thesis by simp
  qed
qed

lemma scan_chunk_inv:
  assumes "scan_chunk lp n i start pending stored = (lp', start', pending', stored')"
    and "n = length lp" "start \<le> i" "i \<le> n"
    and "NUL \<notin> set (drop start lp)"
    and "NL \<notin> set (take (i - start) (drop start lp))"
  shows "start' \<le> n \<and> length lp' = n \<and> NUL \<notin> set (drop start' lp') \<and> NL \<notin> set (drop start' lp')
       \<and> foldl astep (unb pending, unl stored) (drop start lp) = foldl astep (unb pending', unl stored') (drop start' lp')
       \<and> (pending' = None \<or> pending' = pending)
       \<and> (stored \<noteq> Some [] \<longrightarrow> stored' \<noteq> Some [])"
  using assms
proof (induction lp n i start pending stored rule: scan_chunk.induct)
  case (1 lp n i start pending stored)
  show ?case
  proof (cases "i < n")
    case False
    with "1.prems" have "i = n" by simp
    with "1.prems" False show ?thesis
      by (simp add: scan_chunk.simps)
  next
    case True
    note lt = True
    show ?thesis
    proof (cases "lp ! i = NL")
      case False
      from "1.prems"(1) lt False have step: "scan_chunk lp n (i + 1) start pending stored = (lp', start', pending', stored')"
        by (subst (asm) scan_chunk.simps) simp
      have "take (i + 1 - start) (drop start lp) = take (i - start) (drop start lp) @ [lp ! i]"
        using "1.prems" lt by (simp add: take_Suc_conv_app_nth Suc_diff_le)
      with "1.prems" False have "NL \<notin> set (take (i + 1 - start) (drop start lp))" by auto
      with "1.IH"(2) [OF lt False step] "1.prems" lt show ?thesis by simp
    next
      case True
      define lp1 where "lp1 = lp[i := NUL]"
      define line where "line = appendTextOutput pending (drop start lp1)"
      from "1.prems"(1) lt True have step:
        "scan_chunk lp1 n (i + 1) (i + 1) None (Some (appendTextArray stored line)) = (lp', start', pending', stored')"
        by (subst (asm) scan_chunk.simps) (simp add: lp1_def line_def Let_def)
      let ?seg = "take (i - start) (drop start lp)"
      have len_seg: "length ?seg = i - start"
        using "1.prems" lt by simp
      have "drop (i - start) (drop start lp) = drop i lp"
        using "1.prems" by simp
      moreover have "drop i lp = NL # drop (i + 1) lp"
        using "1.prems" lt True by (simp add: Cons_nth_drop_Suc [symmetric])
      moreover have "drop start lp = ?seg @ drop (i - start) (drop start lp)"
        by (simp only: append_take_drop_id)
      ultimately have dl: "drop start lp = ?seg @ NL # drop (i + 1) lp"
        by simp
      have "drop start lp1 = (drop start lp)[i - start := NUL]"
        using "1.prems" unfolding lp1_def by (simp add: drop_update_swap)
      also have "\<dots> = (?seg @ NL # drop (i + 1) lp)[length ?seg := NUL]"
        using dl len_seg by simp
      also have "\<dots> = ?seg @ NUL # drop (i + 1) lp"
        by (rule list_update_length)
      finally have dl1: "drop start lp1 = ?seg @ NUL # drop (i + 1) lp" .
      have segnul: "NUL \<notin> set ?seg" using "1.prems" by (metis in_set_takeD)
      have line: "line = unb pending @ ?seg"
        unfolding line_def appendTextOutput_def dl1 using segnul
        by (simp add: cstr_nonul unb_def split: option.splits)
      have d1: "drop (i + 1) lp1 = drop (i + 1) lp" unfolding lp1_def by simp
      have nn: "NUL \<notin> set (drop (i + 1) lp1)"
      proof -
        have "set (drop (i + 1) lp) \<subseteq> set (drop start lp)"
          by (subst dl) auto
        with "1.prems" show ?thesis unfolding d1 by auto
      qed
      have IH: "start' \<le> n \<and> length lp' = n \<and> NUL \<notin> set (drop start' lp') \<and> NL \<notin> set (drop start' lp')
       \<and> foldl astep (unb None, unl (Some (appendTextArray stored line))) (drop (i + 1) lp1) = foldl astep (unb pending', unl stored') (drop start' lp')
       \<and> (pending' = None \<or> pending' = None)
       \<and> (Some (appendTextArray stored line) \<noteq> Some [] \<longrightarrow> stored' \<noteq> Some [])"
        using "1.IH"(1) [OF lt True lp1_def line_def refl step] "1.prems" lt nn
        by (simp add: lp1_def)
      have f: "foldl astep (unb pending, unl stored) (drop start lp)
            = foldl astep ([], unl stored @ [line]) (drop (i + 1) lp)"
        using "1.prems" by (subst dl) (simp add: foldl_astep_plain line)
      have ne: "appendTextArray stored line \<noteq> []" by (simp add: appendTextArray_def split: option.splits)
      have ua: "unl (Some (appendTextArray stored line)) = unl stored @ [line]"
        by (simp add: unl_def appendTextArray_def split: option.splits)
      have ub: "unb None = []" by (simp add: unb_def)
      from IH ne show ?thesis
        unfolding f ua ub d1 by simp
    qed
  qed
qed


lemma finish_vector_abs:
  "pending \<noteq> Some [] \<Longrightarrow> stored \<noteq> Some [] \<Longrightarrow>
   finish_vector pending stored = array_of (final_lines (unb pending, unl stored))"
  by (auto simp: finish_vector_def array_of_def final_lines_def unb_def unl_def appendTextArray_def
      split: option.splits)

lemma chunk_step:
  assumes sc: "scan_chunk bs (length bs) 0 0 pending stored = (lp', start', b', a')"
    and nn: "NUL \<notin> set bs" and b: "pending \<noteq> Some []" and a: "stored \<noteq> Some []"
  defines "b'' \<equiv> (if start' < length bs
                   then Some (appendTextOutput b' (drop start' (lp' @ [NUL]))) else b')"
  shows "(unb b'', unl a') = foldl astep (unb pending, unl stored) bs \<and> b'' \<noteq> Some [] \<and> a' \<noteq> Some []"
proof -
  from scan_chunk_inv [OF sc refl] nn
  have inv: "start' \<le> length bs" "length lp' = length bs" "NUL \<notin> set (drop start' lp')"
    "NL \<notin> set (drop start' lp')"
    "foldl astep (unb pending, unl stored) bs = foldl astep (unb b', unl a') (drop start' lp')"
    "b' = None \<or> b' = pending" "stored \<noteq> Some [] \<longrightarrow> a' \<noteq> Some []"
    by simp_all
  have fold: "foldl astep (unb pending, unl stored) bs = (unb b' @ drop start' lp', unl a')"
    using inv(4,5) by (simp add: foldl_astep_plain)
  show ?thesis
  proof (cases "start' < length bs")
    case True
    have "drop start' (lp' @ [NUL]) = drop start' lp' @ [NUL]"
      using inv(1,2) by simp
    then have "appendTextOutput b' (drop start' (lp' @ [NUL])) = unb b' @ drop start' lp'"
      using inv(3) by (simp add: appendTextOutput_def cstr_nonul unb_def split: option.splits)
    moreover have "drop start' lp' \<noteq> []" using True inv(2) by simp
    ultimately show ?thesis using True fold inv(7) a
      by (simp add: b''_def unb_def)
  next
    case False
    then have "drop start' lp' = []" using inv(2) by simp
    with False fold inv(6,7) a b show ?thesis
      by (auto simp: b''_def)
  qed
qed

lemma vector_loop_abs:
  "[] \<notin> set chunks \<Longrightarrow> NUL \<notin> set (concat chunks) \<Longrightarrow>
   pending \<noteq> Some [] \<Longrightarrow> stored \<noteq> Some [] \<Longrightarrow>
   vector_loop (map ReadBytes chunks) pending stored =
     (array_of (final_lines (foldl astep (unb pending, unl stored) (concat chunks))), 0)"
proof (induction chunks arbitrary: pending stored)
  case Nil
  then show ?case by (simp add: finish_vector_abs)
next
  case (Cons c cs)
  from Cons.prems have c: "c \<noteq> []" "NUL \<notin> set c" and cs: "[] \<notin> set cs" "NUL \<notin> set (concat cs)"
    by auto
  obtain lp' start' b' a' where sc: "scan_chunk c (length c) 0 0 pending stored = (lp', start', b', a')"
    by (cases "scan_chunk c (length c) 0 0 pending stored") auto
  define b'' where "b'' = (if start' < length c
                   then Some (appendTextOutput b' (drop start' (lp' @ [NUL]))) else b')"
  from chunk_step [OF sc c(2) Cons.prems(3,4)]
  have st: "(unb b'', unl a') = foldl astep (unb pending, unl stored) c" "b'' \<noteq> Some []" "a' \<noteq> Some []"
    by (simp_all add: b''_def)
  have "vector_loop (map ReadBytes (c # cs)) pending stored = vector_loop (map ReadBytes cs) b'' a'"
    using c(1) sc by (simp add: b''_def)
  also have "\<dots> = (array_of (final_lines (foldl astep (unb b'', unl a') (concat cs))), 0)"
    by (rule Cons.IH [OF cs st(2,3)])
  finally show ?case by (simp add: st(1))
qed

lemma lines_of_abs: "lines_of B = final_lines (foldl astep ([], []) B)"
proof -
  obtain p a where f: "foldl astep ([], []) B = (p, a)"
    by (cases "foldl astep ([], []) B") auto
  from foldl_astep_split [OF f] have "split_nl B = a @ [p]"
    by (simp add: split_nl_def)
  then show ?thesis by (simp add: lines_of_def f final_lines_def)
qed

lemma string_loop_data:
  "[] \<notin> set chunks \<Longrightarrow> NUL \<notin> set (concat chunks) \<Longrightarrow>
   HandleOutputToString (map ReadBytes chunks) (Some holder) =
     (Some (Some (unb holder @ concat chunks)), 0)"
proof (induction chunks arbitrary: holder)
  case Nil
  then show ?case by (simp add: appendTextOutput_def cstr_def unb_def NUL_def split: option.splits)
next
  case (Cons c cs)
  from Cons.prems have c: "c \<noteq> []" "NUL \<notin> set c" and cs: "[] \<notin> set cs" "NUL \<notin> set (concat cs)"
    by auto
  show ?case using c Cons.IH [OF cs]
    by (simp add: appendTextOutput_def cstr_nonul Let_def unb_def split: option.splits)
qed

text \<open>
  C3 (as stated, refuted): a chunk that holds a NUL byte is cut at it, because the worker
  hands each chunk to \<^verbatim>\<open>strcat\<close> as a C string. The child writes the three bytes
  \<open>a\<close>, NUL, \<open>b\<close>; the string binding collects \<open>a\<close> only.
\<close>

theorem C3_nul_counterexample:
  "HandleOutputToString [ReadBytes [CHR ''a'', NUL, CHR ''b'']] (Some None) = (Some (Some ''a''), 0)
   \<and> ''a'' \<noteq> [CHR ''a'', NUL, CHR ''b'']"
  by (simp add: appendTextOutput_def cstr_def NUL_def)

text \<open>
  C3 (amended): for every byte sequence \<open>B\<close> without a NUL byte that the child writes to
  stdout, however the non-empty reads chunk it, a string binding whose holder was
  cleared collects exactly \<open>B\<close> and the worker reports no error.
\<close>

theorem C3_string_binding_collects_output:
  assumes "[] \<notin> set chunks" and "NUL \<notin> set (concat chunks)"
  shows "HandleOutputToString (map ReadBytes chunks) (Some None) = (Some (Some (concat chunks)), 0)"
  using string_loop_data [OF assms, of None] by (simp add: unb_def)

theorem C3_string_binding_witness:
  "[] \<notin> set [''hel'', ''lo'' @ [NL]] \<and> NUL \<notin> set (concat [''hel'', ''lo'' @ [NL]])
   \<and> HandleOutputToString (map ReadBytes [''hel'', ''lo'' @ [NL]]) (Some None)
       = (Some (Some (''hello'' @ [NL])), 0)"
proof -
  have h1: "[] \<notin> set [''hel'', ''lo'' @ [NL]]" by simp
  have h2: "NUL \<notin> set (concat [''hel'', ''lo'' @ [NL]])" by (simp add: NUL_def NL_def)
  show ?thesis using h1 h2 C3_string_binding_collects_output [OF h1 h2] by simp
qed

text \<open>
  C4 (as stated, refuted): with a NUL byte in the output the collected lines are not the
  split of \<open>B\<close>, and they depend on the chunking. For \<open>B\<close> = \<open>a\<close>, NUL, \<open>b\<close>,
  newline, read in one chunk the array is \<open>[a]\<close>; read as two chunks it is \<open>[ab]\<close>; the
  split of \<open>B\<close> has the one line \<open>a\<close>, NUL, \<open>b\<close>.
\<close>

theorem C4_nul_counterexample:
  "HandleOutputToVector [ReadBytes [CHR ''a'', NUL, CHR ''b'', NL]] None = (Some [''a''], 0)
   \<and> HandleOutputToVector [ReadBytes [CHR ''a'', NUL], ReadBytes [CHR ''b'', NL]] None = (Some [''ab''], 0)
   \<and> lines_of [CHR ''a'', NUL, CHR ''b'', NL] = [[CHR ''a'', NUL, CHR ''b'']]"
  by (simp add: HandleOutputToVector_def scan_chunk.simps appendTextOutput_def appendTextArray_def
      cstr_def NL_def NUL_def finish_vector_def lines_of_def split_nl_def)

text \<open>
  C4 (amended): for every byte sequence \<open>B\<close> without a NUL byte that the child writes to
  stdout under a line-array binding, however the non-empty reads chunk it, the collected
  array holds the lines of \<open>B\<close>: \<open>B\<close> split at the newlines, the newlines removed, the
  last field left out when it is empty (when \<open>B\<close> ends in a newline or is empty) and
  kept as the last line otherwise. With no line at all the array stays NULL.
\<close>

theorem C4_line_binding_collects_lines:
  assumes "[] \<notin> set chunks" and "NUL \<notin> set (concat chunks)"
  shows "HandleOutputToVector (map ReadBytes chunks) None =
           (if lines_of (concat chunks) = [] then None else Some (lines_of (concat chunks)), 0)"
  using vector_loop_abs [OF assms, of None None]
  by (simp add: HandleOutputToVector_def lines_of_abs unb_def unl_def array_of_def)

theorem C4_line_binding_witness:
  "[] \<notin> set [''on'', ''e'' @ [NL] @ ''tw'', ''o'' @ [NL, NL] @ ''x'']
   \<and> NUL \<notin> set (concat [''on'', ''e'' @ [NL] @ ''tw'', ''o'' @ [NL, NL] @ ''x''])
   \<and> HandleOutputToVector (map ReadBytes [''on'', ''e'' @ [NL] @ ''tw'', ''o'' @ [NL, NL] @ ''x'']) None
       = (Some [''one'', ''two'', [], ''x''], 0)"
proof -
  have h1: "[] \<notin> set [''on'', ''e'' @ [NL] @ ''tw'', ''o'' @ [NL, NL] @ ''x'']" by simp
  have h2: "NUL \<notin> set (concat [''on'', ''e'' @ [NL] @ ''tw'', ''o'' @ [NL, NL] @ ''x''])"
    by (simp add: NUL_def NL_def)
  have l: "lines_of (concat [''on'', ''e'' @ [NL] @ ''tw'', ''o'' @ [NL, NL] @ ''x''])
             = [''one'', ''two'', [], ''x'']"
    by (simp add: lines_of_def split_nl_def NL_def)
  show ?thesis using h1 h2 C4_line_binding_collects_lines [OF h1 h2] unfolding l by simp
qed

section \<open>Wait statuses\<close>

lemma mask_ff00: "(0xff00 :: 32 word) = push_bit 8 (mask 8)"
  by (simp add: mask_eq_exp_minus_1)
lemma mask_7f: "(0x7f :: 32 word) = mask 7"
  by (simp add: mask_eq_exp_minus_1)

lemma exit_status: "WEXITSTATUS (status_of (Exited c)) = ucast c"
  unfolding WEXITSTATUS_def status_of.simps mask_ff00
  by (rule bit_word_eqI) (auto simp: bit_simps dest: bit_imp_le_length)

lemma exit_exited: "WIFEXITED (status_of (Exited c))"
  unfolding WIFEXITED_def status_of.simps mask_7f
  by (rule bit_word_eqI) (auto simp: bit_simps)


lemma bit128: "bit (0x80 :: int) n \<longleftrightarrow> n = 7"
proof -
  have e: "(0x80 :: int) = 2 ^ 7" by simp
  show ?thesis unfolding e by (subst bit_exp_iff) auto
qed

lemma sig_status: "WEXITSTATUS (status_of (Signaled sig core)) = 0"
  unfolding WEXITSTATUS_def status_of.simps mask_ff00
  by (rule bit_word_eqI) (auto simp: bit_simps bit128 dest: bit_imp_le_length)

lemma sig_low: "sig < 0x80 \<Longrightarrow> status_of (Signaled sig core) AND 0x7f = ucast sig"
proof -
  assume "sig < 0x80"
  then have "sig < 2 ^ 7" by simp
  then have m: "sig AND mask 7 = sig" by (rule less_mask_eq)
  have "status_of (Signaled sig core) AND 0x7f = ucast (sig AND mask 7)"
    unfolding status_of.simps mask_7f
    by (rule bit_word_eqI) (auto simp: bit_simps bit128 dest: bit_imp_le_length)
  then show ?thesis by (simp only: m)
qed


lemma sint_small: 
  fixes x :: "8 word"
  assumes "unat x < 128" shows "sint x = int (unat x)"
proof -
  have u: "uint x = int (unat x)" by (rule uint_nat)
  have lo: "- (2 ^ 7) \<le> int (unat x)"
  proof -
    have "(0::int) \<le> int (unat x)" by (rule of_nat_0_le_iff)
    moreover have "- (2 ^ 7) \<le> (0::int)" by simp
    ultimately show ?thesis by (rule order_trans [rotated])
  qed
  have hi: "int (unat x) < 2 ^ 7"
  proof -
    have "int (unat x) < int 128" using assms by (simp only: of_nat_less_iff)
    then show ?thesis by simp
  qed
  have "sint x = signed_take_bit 7 (uint x)" by (simp add: sint_uint)
  also have "\<dots> = int (unat x)"
    unfolding u by (rule signed_take_bit_int_eq_self [OF lo hi])
  finally show ?thesis .
qed

lemma signaled_of_low:
  fixes t :: "32 word"
  assumes "0 < unat t" "unat t < 127"
  shows "0 <s signed_drop_bit 1 (ucast (t + 1) :: 8 word)"
proof -
  have b: "unat (t + 1) = unat t + 1"
    using assms by (simp add: unat_word_ariths)
  have c: "unat (ucast (t + 1) :: 8 word) = unat t + 1"
    using assms by (simp add: unsigned_ucast_eq b take_bit_nat_eq_self)
  have "unat (ucast (t + 1) :: 8 word) < 128" using assms unfolding c by simp
  from sint_small [OF this] have d: "sint (ucast (t + 1) :: 8 word) = int (unat t + 1)"
    unfolding c .
  have "(0::int) < int (unat t + 1) div 2" using assms(1) by linarith
  then have "0 < sint (signed_drop_bit 1 (ucast (t + 1) :: 8 word))"
    unfolding sint_signed_drop_bit_eq d drop_bit_eq_div by simp
  moreover have "sint (0 :: 8 word) = 0" by simp
  ultimately show ?thesis unfolding word_sless_alt by (simp only:)
qed

lemma sig_signaled:
  assumes "0 < sig" "sig < 0x7f"
  shows "WIFSIGNALED (status_of (Signaled sig core))" and "\<not> WIFEXITED (status_of (Signaled sig core))"
proof -
  from assms have lt: "sig < 0x80" by (simp add: word_less_nat_alt)
  have u: "unat sig < 127" "0 < unat sig" using assms by (simp_all add: word_less_nat_alt)
  have "unat sig < 2 ^ 32" using u by simp
  then have uu: "unat (ucast sig :: 32 word) = unat sig"
    by (simp add: unsigned_ucast_eq take_bit_nat_eq_self)
  show "WIFSIGNALED (status_of (Signaled sig core))"
    unfolding WIFSIGNALED_def sig_low [OF lt]
    by (rule signaled_of_low) (simp_all add: uu u)
  have "(ucast sig :: 32 word) \<noteq> 0"
  proof
    assume "(ucast sig :: 32 word) = 0"
    then have "unat (ucast sig :: 32 word) = 0" by simp
    with uu u(2) show False by simp
  qed
  then show "\<not> WIFEXITED (status_of (Signaled sig core))"
    unfolding WIFEXITED_def sig_low [OF lt] .
qed

lemma stopped_low: "status_of (Stopped sig) AND 0x7f = 0x7f"
  unfolding status_of.simps mask_7f
  by (rule bit_word_eqI) (auto simp: bit_simps)

lemma stopped_running:
  "\<not> WIFEXITED (status_of (Stopped sig))" "\<not> WIFSIGNALED (status_of (Stopped sig))"
  unfolding WIFEXITED_def WIFSIGNALED_def stopped_low by (simp_all add: word_sless_alt)

lemma continued_running:
  "\<not> WIFEXITED (status_of Continued)" "\<not> WIFSIGNALED (status_of Continued)"
  unfolding WIFEXITED_def WIFSIGNALED_def status_of.simps by (simp_all add: word_sless_alt)

lemma exited_not_signaled: "\<not> WIFSIGNALED (status_of (Exited c))"
proof -
  have "status_of (Exited c) AND 0x7f = 0" using exit_exited [of c] by (simp add: WIFEXITED_def)
  then show ?thesis unfolding WIFSIGNALED_def by simp
qed

section \<open>The PATH loop\<close>

lemma path_loop_colon: "deref env = COLON \<Longrightarrow> path_loop found base env = Some None"
  by (subst path_loop.simps) simp

lemma path_loop_found:
  "deref env \<noteq> COLON \<Longrightarrow> found (takeWhile (\<lambda>c. c \<noteq> COLON) env @ [SLASH] @ base) \<Longrightarrow>
   path_loop found base env = Some (Some (takeWhile (\<lambda>c. c \<noteq> COLON) env @ [SLASH] @ base))"
  by (subst path_loop.simps) simp

lemma path_loop_next:
  "deref env \<noteq> COLON \<Longrightarrow> \<not> found (takeWhile (\<lambda>c. c \<noteq> COLON) env @ [SLASH] @ base) \<Longrightarrow>
   path_loop found base env = path_loop found base (dropWhile (\<lambda>c. c \<noteq> COLON) env)"
  by (subst path_loop.simps) simp

lemma path_loop_end_diverges:
  assumes "\<not> found ([SLASH] @ base)"
  shows "path_loop found base [] = None"
proof (rule ccontr)
  assume "path_loop found base [] \<noteq> None"
  then obtain y where y: "path_loop found base [] = Some y" by auto
  have "\<not> (found = found \<and> base = base \<and> ([]::string) = [])"
  proof (rule path_loop.raw_induct
      [where P = "\<lambda>f b e z. \<not> (f = found \<and> b = base \<and> e = [])", OF _ y], goal_cases)
    case (1 pl f b e z)
    show ?case
    proof
      assume eq: "f = found \<and> b = base \<and> e = []"
      with 1(2) assms have "pl found base [] = Some z"
        by (simp add: deref_def NUL_def COLON_def split: if_splits)
      from 1(1) [OF this] show False by simp
    qed
  qed
  then show False by simp
qed

lemma path_loop_cases:
  "path_loop found base env =
     (if deref env = COLON then Some None
      else if found (takeWhile (\<lambda>c. c \<noteq> COLON) env @ [SLASH] @ base)
        then Some (Some (takeWhile (\<lambda>c. c \<noteq> COLON) env @ [SLASH] @ base))
      else if COLON \<in> set env then Some None
      else if found ([SLASH] @ base) then Some (Some ([SLASH] @ base))
      else None)"
proof (cases "deref env = COLON")
  case True
  then show ?thesis by (simp add: path_loop_colon)
next
  case nc: False
  show ?thesis
  proof (cases "found (takeWhile (\<lambda>c. c \<noteq> COLON) env @ [SLASH] @ base)")
    case True
    with nc show ?thesis by (simp add: path_loop_found)
  next
    case nf: False
    have step: "path_loop found base env = path_loop found base (dropWhile (\<lambda>c. c \<noteq> COLON) env)"
      using nc nf by (rule path_loop_next [of env found base])
    show ?thesis
    proof (cases "COLON \<in> set env")
      case True
      then have "dropWhile (\<lambda>c. c \<noteq> COLON) env \<noteq> []" by simp
      then have "deref (dropWhile (\<lambda>c. c \<noteq> COLON) env) = COLON"
        using hd_dropWhile [of "\<lambda>c. c \<noteq> COLON" env]
        by (cases "dropWhile (\<lambda>c. c \<noteq> COLON) env") (auto simp: deref_def)
      with nc nf True step show ?thesis by (simp add: path_loop_colon)
    next
      case False
      then have d: "dropWhile (\<lambda>c. c \<noteq> COLON) env = []" by auto
      have e: "deref [] \<noteq> COLON" by (simp add: deref_def NUL_def COLON_def)
      show ?thesis
      proof (cases "found ([SLASH] @ base)")
        case True
        with e have "path_loop found base [] = Some (Some ([SLASH] @ base))"
          using path_loop_found [of "[]" found base] by simp
        with nc nf False step d True show ?thesis by simp
      next
        case f2: False
        from f2 have "path_loop found base [] = None"
          by (rule path_loop_end_diverges [of found base])
        with nc nf False step d f2 show ?thesis by simp
      qed
    qed
  qed
qed

lemma resolve_cases:
  "resolve w base =
     (if ExeFound w base then Some (Some base)
      else if deref base = SLASH then Some None
      else case PATH w of
             None \<Rightarrow> Some None
           | Some env \<Rightarrow> path_loop (ExeFound w) base (cstr env))"
  by (simp add: resolve_def)

lemma resolve_no_PATH: "\<not> ExeFound w base \<Longrightarrow> PATH w = None \<Longrightarrow> resolve w base = Some None"
  by (simp add: resolve_def)

lemma resolve_not_found_iff:
  "resolve w base = Some None \<longleftrightarrow>
     \<not> ExeFound w base
     \<and> (deref base = SLASH \<or> PATH w = None
        \<or> (\<exists>env. PATH w = Some env
              \<and> (deref (cstr env) = COLON
                 \<or> (COLON \<in> set (cstr env)
                    \<and> \<not> ExeFound w (takeWhile (\<lambda>c. c \<noteq> COLON) (cstr env) @ [SLASH] @ base)))))"
  by (auto simp: resolve_cases path_loop_cases split: option.splits)

text \<open>
  C5 (the code at the failing input): PATH is \<open>/usr/local/bin:/bin\<close> and the only
  executable is \<open>/bin/ls\<close>. The loop tries \<open>/usr/local/bin/ls\<close>, stops at the colon that
  ends the first component and reports that \<open>ls\<close> was not found, although the second
  component holds it.
\<close>

theorem C5_second_path_component_not_tried:
  "ExeFound (quiet_os (Some ''/usr/local/bin:/bin'') [''/bin/ls''] []) ''/bin/ls''
   \<and> resolve (quiet_os (Some ''/usr/local/bin:/bin'') [''/bin/ls''] []) ''ls'' = Some None
   \<and> reported (shellspawn (quiet_os (Some ''/usr/local/bin:/bin'') [''/bin/ls''] []) (plain_call ''ls''))
       = Some (SHELLSPAWN_NOFOUND, 77)"
  by code_simp

section \<open>Properties of the command parser\<close>

lemma ParseCommand_never_rejects: "ParseCommand True s \<noteq> Inr None"
  by (simp add: ParseCommand_def Let_def split: sum.splits prod.splits)

lemma SP_not_NUL: "SP \<noteq> NUL"
  by (simp add: SP_def NUL_def)

lemma at_spaces:
  "at (replicate n SP @ [NUL]) l = (if l < n then SP else NUL)"
  by (auto simp: at_def nth_append)

lemma skip_spaces_all:
  "l \<le> n \<Longrightarrow> skip_spaces (replicate n SP @ [NUL]) l = n"
proof (induction "n - l" arbitrary: l)
  case 0
  then have "l = n" by simp
  then show ?case by (subst skip_spaces.simps) (simp add: at_spaces)
next
  case (Suc k)
  then have lt: "l < n" by simp
  have "skip_spaces (replicate n SP @ [NUL]) (l + 1) = n"
    using Suc lt by (intro Suc.hyps(1)) simp_all
  with lt show ?case
    by (subst skip_spaces.simps) (simp add: at_spaces SP_not_NUL)
qed

lemma find_space_end: "find_space (replicate n SP @ [NUL]) n = n"
  by (subst find_space.simps) (simp add: at_spaces)

lemma cstr_spaces: "cstr (replicate n SP) = replicate n SP"
  using SP_not_NUL by (simp add: cstr_def)

lemma ParseCommand_blank:
  "ParseCommand True (replicate n SP)
     = Inr (Some \<lparr>p_buffer = replicate n SP @ [NUL], p_file = n, p_argv = [Ptr n, Null]\<rparr>)"
proof -
  have l: "cstr [NUL] = []"
    by (simp add: cstr_def)
  have sk: "skip_spaces (replicate n SP @ [NUL]) 0 = n"
    by (rule skip_spaces_all) simp
  have sk2: "skip_spaces (replicate n SP @ [NUL]) n = n"
    by (rule skip_spaces_all) simp
  show ?thesis
    unfolding ParseCommand_def cstr_spaces
    by (simp add: sk sk2 find_space_end at_spaces Let_def strrchr_def l)
qed

lemma base_name_blank:
  "base_name \<lparr>p_buffer = replicate n SP @ [NUL], p_file = n, p_argv = [Ptr n, Null]\<rparr> = []"
  by (simp add: base_name_def cstr_at_def cstr_def)


lemma ParseCommand_empty:
  "ParseCommand True [] = Inr (Some \<lparr>p_buffer = [NUL], p_file = 0, p_argv = [Ptr 0, Null]\<rparr>)"
  by code_simp

lemma ParseCommand_spaces:
  "ParseCommand True ''   ''
     = Inr (Some \<lparr>p_buffer = [CHR '' '', CHR '' '', CHR '' '', NUL], p_file = 3, p_argv = [Ptr 3, Null]\<rparr>)"
  by code_simp

lemma ParseCommand_plain:
  "map_sum id (map_option argv_strings) (ParseCommand True ''/bin/echo hello  world'')
     = Inr (Some [Some ''echo'', Some ''hello'', Some ''world'', None])"
  by code_simp

text \<open>
  C6 (the code at the failing input): the command is \<open>/bin/echo "a b"\<close>. The quoted
  argument is counted as one argument, but it is stored with \<^verbatim>\<open>*argv[a]\<close> for \<open>a = 1\<close>,
  through the word that follows the caller's \<^verbatim>\<open>argv\<close> variable, and slot 1 of the vector
  is never written.
\<close>

theorem C6_quoted_argument_stored_out_of_bounds:
  "ParseCommand True (''/bin/echo '' @ [DQUOTE] @ ''a b'' @ [DQUOTE]) = Inl (WildStore 1)
   \<and> shellspawn (quiet_os None [''/bin/echo''] [])
        (plain_call (''/bin/echo '' @ [DQUOTE] @ ''a b'' @ [DQUOTE])) = Some (Undefined (WildStore 1))"
  by code_simp

section \<open>Properties of the call\<close>

lemma plain_call_valid: "validate (plain_call cmd) = None"
  by (simp add: validate_def plain_call_def bindings_in_def bindings_out_def bindings_err_def
      bindings_def)

lemma quiet_os_undisturbed: "undisturbed (quiet_os path paths waits)"
  by (simp add: undisturbed_def quiet_os_def)

lemma validate_status:
  "validate c = Some st \<Longrightarrow> st = SHELLSPAWN_TOOMANYIN \<or> st = SHELLSPAWN_TOOMANYOUT \<or> st = SHELLSPAWN_TOOMANYERR"
  by (auto simp: validate_def split: if_splits)

lemma shellspawn_invalid:
  "validate c = Some st \<Longrightarrow> shellspawn w c = Some (Returned \<lparr>status = st, post = c, events = []\<rparr>)"
  by (simp add: shellspawn_def)

text \<open>
  C2: when the caller gives more than one binding for a stream, \<^verbatim>\<open>shellspawn\<close> returns the
  code of an over-bound stream (the first one in the order stdin, stdout, stderr:
  \<^verbatim>\<open>SHELLSPAWN_TOOMANYIN\<close> = 1, \<^verbatim>\<open>SHELLSPAWN_TOOMANYOUT\<close> = 2, \<^verbatim>\<open>SHELLSPAWN_TOOMANYERR\<close> = 3)
  before any synchronisation primitive, pipe, terminal, thread or process is created, and
  the caller's memory is as it was.
\<close>

theorem C2_binding_conflict_before_allocation:
  assumes "bindings_in c > 1 \<or> bindings_out c > 1 \<or> bindings_err c > 1"
  shows "\<exists>r. shellspawn w c = Some (Returned r) \<and> events r = [] \<and> post r = c
           \<and> (bindings_in c > 1 \<longrightarrow> status r = SHELLSPAWN_TOOMANYIN)
           \<and> (bindings_in c \<le> 1 \<and> bindings_out c > 1 \<longrightarrow> status r = SHELLSPAWN_TOOMANYOUT)
           \<and> (bindings_in c \<le> 1 \<and> bindings_out c \<le> 1 \<and> bindings_err c > 1
                \<longrightarrow> status r = SHELLSPAWN_TOOMANYERR)
           \<and> ((status r = SHELLSPAWN_TOOMANYIN \<and> bindings_in c > 1)
                \<or> (status r = SHELLSPAWN_TOOMANYOUT \<and> bindings_out c > 1)
                \<or> (status r = SHELLSPAWN_TOOMANYERR \<and> bindings_err c > 1))"
proof -
  from assms have "validate c \<noteq> None"
    by (auto simp: validate_def)
  then obtain st where v: "validate c = Some st"
    by auto
  from v have "(bindings_in c > 1 \<longrightarrow> st = SHELLSPAWN_TOOMANYIN)
           \<and> (bindings_in c \<le> 1 \<and> bindings_out c > 1 \<longrightarrow> st = SHELLSPAWN_TOOMANYOUT)
           \<and> (bindings_in c \<le> 1 \<and> bindings_out c \<le> 1 \<and> bindings_err c > 1
                \<longrightarrow> st = SHELLSPAWN_TOOMANYERR)
           \<and> ((st = SHELLSPAWN_TOOMANYIN \<and> bindings_in c > 1)
                \<or> (st = SHELLSPAWN_TOOMANYOUT \<and> bindings_out c > 1)
                \<or> (st = SHELLSPAWN_TOOMANYERR \<and> bindings_err c > 1))"
    by (auto simp: validate_def split: if_splits)
  with shellspawn_invalid [OF v, of w] show ?thesis by simp
qed

lemma supervise_status:
  "supervise w c log = Some (Returned r) \<Longrightarrow> status r = SHELLSPAWN_OK \<or> status r = SHELLSPAWN_FAILURE"
  unfolding supervise_def
  by (auto split: prod.splits bool.splits option.splits if_splits)

lemma shellspawn_status_valid:
  assumes "validate c = None" "shellspawn w c = Some (Returned r)"
  shows "status r = SHELLSPAWN_OK \<or> status r = SHELLSPAWN_NOFOUND \<or> status r = SHELLSPAWN_FAILURE"
  using assms unfolding shellspawn_def
  by (auto split: prod.splits bool.splits option.splits sum.splits dest: supervise_status)

text \<open>
  C10: when \<^verbatim>\<open>shellspawn\<close> returns one of the three binding-conflict codes, the output
  holders \<^verbatim>\<open>*aOut\<close>, \<^verbatim>\<open>*sOut\<close>, \<^verbatim>\<open>*aErr\<close>, \<^verbatim>\<open>*sErr\<close> are as the caller passed them
  and nothing was created: the holders are cleared only after the three checks.
\<close>

theorem C10_conflict_leaves_holders:
  assumes "shellspawn w c = Some (Returned r)"
    and "status r = SHELLSPAWN_TOOMANYIN \<or> status r = SHELLSPAWN_TOOMANYOUT \<or> status r = SHELLSPAWN_TOOMANYERR"
  shows "aOut (post r) = aOut c \<and> sOut (post r) = sOut c \<and> aErr (post r) = aErr c \<and> sErr (post r) = sErr c
         \<and> events r = []"
proof (cases "validate c")
  case None
  from shellspawn_status_valid [OF None assms(1)] assms(2) show ?thesis
    by (auto simp: SHELLSPAWN_OK_def SHELLSPAWN_NOFOUND_def SHELLSPAWN_FAILURE_def
        SHELLSPAWN_TOOMANYIN_def SHELLSPAWN_TOOMANYOUT_def SHELLSPAWN_TOOMANYERR_def)
next
  case (Some st)
  from shellspawn_invalid [OF Some, of w] assms(1) show ?thesis by auto
qed

theorem C2_binding_conflict_witness:
  "(bindings_in (plain_call ''/bin/echo''\<lparr>aOut := Some None, sOut := Some (Some ''old'')\<rparr>) > 1
    \<or> bindings_out (plain_call ''/bin/echo''\<lparr>aOut := Some None, sOut := Some (Some ''old'')\<rparr>) > 1
    \<or> bindings_err (plain_call ''/bin/echo''\<lparr>aOut := Some None, sOut := Some (Some ''old'')\<rparr>) > 1)
   \<and> shellspawn (quiet_os None [''/bin/echo''] [])
        (plain_call ''/bin/echo''\<lparr>aOut := Some None, sOut := Some (Some ''old'')\<rparr>)
       = Some (Returned \<lparr>status = SHELLSPAWN_TOOMANYOUT,
                        post = plain_call ''/bin/echo''\<lparr>aOut := Some None, sOut := Some (Some ''old'')\<rparr>,
                        events = []\<rparr>)"
proof -
  let ?c = "plain_call ''/bin/echo''\<lparr>aOut := Some None, sOut := Some (Some ''old'')\<rparr>"
  let ?w = "quiet_os None [''/bin/echo''] []"
  have i: "bindings_in ?c \<le> 1" by (simp add: bindings_in_def bindings_def plain_call_def)
  have o: "bindings_out ?c > 1" by (simp add: bindings_out_def bindings_def plain_call_def)
  then have h: "bindings_in ?c > 1 \<or> bindings_out ?c > 1 \<or> bindings_err ?c > 1" by simp
  from C2_binding_conflict_before_allocation [OF h, of ?w] i o
  obtain r where r: "shellspawn ?w ?c = Some (Returned r)" "events r = []" "post r = ?c"
    "status r = SHELLSPAWN_TOOMANYOUT"
    by auto
  then have "r = \<lparr>status = SHELLSPAWN_TOOMANYOUT, post = ?c, events = []\<rparr>" by simp
  with h r(1) show ?thesis by simp
qed

theorem C10_conflict_witness:
  "shellspawn (quiet_os None [''/bin/echo''] [])
        (plain_call ''/bin/echo''\<lparr>aOut := Some None, sOut := Some (Some ''old'')\<rparr>)
       = Some (Returned \<lparr>status = SHELLSPAWN_TOOMANYOUT,
                        post = plain_call ''/bin/echo''\<lparr>aOut := Some None, sOut := Some (Some ''old'')\<rparr>,
                        events = []\<rparr>)
   \<and> sOut (post \<lparr>status = SHELLSPAWN_TOOMANYOUT,
                  post = plain_call ''/bin/echo''\<lparr>aOut := Some None, sOut := Some (Some ''old'')\<rparr>,
                  events = []\<rparr>) = Some (Some ''old'')"
proof -
  let ?c = "plain_call ''/bin/echo''\<lparr>aOut := Some None, sOut := Some (Some ''old'')\<rparr>"
  let ?w = "quiet_os None [''/bin/echo''] []"
  let ?r = "\<lparr>status = SHELLSPAWN_TOOMANYOUT, post = ?c, events = []\<rparr>"
  have h1: "shellspawn ?w ?c = Some (Returned ?r)" by code_simp
  have h2: "status ?r = SHELLSPAWN_TOOMANYIN \<or> status ?r = SHELLSPAWN_TOOMANYOUT
            \<or> status ?r = SHELLSPAWN_TOOMANYERR" by simp
  from C10_conflict_leaves_holders [OF h1 h2] have "sOut (post ?r) = sOut ?c" by simp
  moreover have "sOut ?c = Some (Some ''old'')" by (simp add: plain_call_def)
  ultimately show ?thesis using h1 by simp
qed

lemma holders_cleared_when_valid:
  "map_option (\<lambda>r. case r of Returned x \<Rightarrow> sOut (post x) | Undefined f \<Rightarrow> None)
     (shellspawn (quiet_os None [] []) (plain_call ''/bin/echo''\<lparr>sOut := Some (Some ''old'')\<rparr>))
   = Some (Some None)"
  by code_simp

lemma wait_loop_ends:
  assumes "ends_with waits s" "WIFEXITED s \<or> WIFSIGNALED s"
  shows "wait_loop waits = Some (Some s)"
proof -
  from assms(1) obtain n where n: "n < length waits" "waits ! n = WaitStatus s"
    "\<forall>i < n. \<exists>t. waits ! i = WaitStatus t \<and> \<not> WIFEXITED t \<and> \<not> WIFSIGNALED t"
    by (auto simp: ends_with_def)
  then show ?thesis using assms(2)
  proof (induction waits arbitrary: n)
    case Nil
    then show ?case by simp
  next
    case (Cons x xs)
    show ?case
    proof (cases n)
      case 0
      with Cons.prems show ?thesis by auto
    next
      case (Suc m)
      from Cons.prems(3) Suc obtain t where t: "x = WaitStatus t" "\<not> WIFEXITED t" "\<not> WIFSIGNALED t"
        by fastforce
      have "wait_loop xs = Some (Some s)"
      proof (rule Cons.IH [of m])
        show "m < length xs" using Cons.prems(1) Suc by simp
        show "xs ! m = WaitStatus s" using Cons.prems(2) Suc by simp
        show "\<forall>i<m. \<exists>t. xs ! i = WaitStatus t \<and> \<not> WIFEXITED t \<and> \<not> WIFSIGNALED t"
          using Cons.prems(3) Suc by fastforce
        show "WIFEXITED s \<or> WIFSIGNALED s" by (rule Cons.prems(4))
      qed
      with t show ?thesis by simp
    qed
  qed
qed

lemma proxy_worker_ends:
  assumes "ends_with waits s" "WIFEXITED s \<or> WIFSIGNALED s" "\<not> handover_fails w"
  shows "ProxyWorker w waits = Some (WEXITSTATUS s)"
proof -
  from assms(1) obtain n where n: "n < length waits" "waits ! n = WaitStatus s"
    "\<forall>i < n. \<exists>t. waits ! i = WaitStatus t \<and> \<not> WIFEXITED t \<and> \<not> WIFSIGNALED t"
    by (auto simp: ends_with_def)
  then show ?thesis using assms(2,3)
  proof (induction waits arbitrary: n)
    case Nil
    then show ?case by simp
  next
    case (Cons x xs)
    show ?case
    proof (cases n)
      case 0
      with Cons.prems show ?thesis by auto
    next
      case (Suc m)
      from Cons.prems(3) Suc obtain t where t: "x = WaitStatus t" "\<not> WIFEXITED t" "\<not> WIFSIGNALED t"
        by fastforce
      have "ProxyWorker w xs = Some (WEXITSTATUS s)"
      proof (rule Cons.IH [of m])
        show "m < length xs" using Cons.prems(1) Suc by simp
        show "xs ! m = WaitStatus s" using Cons.prems(2) Suc by simp
        show "\<forall>i<m. \<exists>t. xs ! i = WaitStatus t \<and> \<not> WIFEXITED t \<and> \<not> WIFSIGNALED t"
          using Cons.prems(3) Suc by fastforce
        show "WIFEXITED s \<or> WIFSIGNALED s" by (rule Cons.prems(4))
        show "\<not> handover_fails w" by (rule Cons.prems(5))
      qed
      with t Cons.prems(5) show ?thesis by simp
    qed
  qed
qed

lemma ucast_8_32_8: "(ucast (ucast (e :: 8 word) :: 32 word) :: 8 word) = e"
  by (rule ucast_up_ucast_id) (simp add: is_up)

lemma sint_ucast_8_32: "sint (ucast (e :: 8 word) :: 32 word) = uint e"
proof -
  have u: "uint (ucast e :: 32 word) = uint e"
    by (rule uint_up_ucast) (simp add: is_up)
  have lo: "- (2 ^ 31) \<le> uint e"
  proof -
    have "(0::int) \<le> uint e" by simp
    moreover have "- (2 ^ 31) \<le> (0::int)" by simp
    ultimately show ?thesis by (rule order_trans [rotated])
  qed
  have "uint e < 2 ^ 8" using uint_lt2p [of e] by simp
  moreover have "(2::int) ^ 8 < 2 ^ 31" by simp
  ultimately have hi: "uint e < 2 ^ 31" by (rule less_trans)
  have "sint (ucast e :: 32 word) = signed_take_bit 31 (uint (ucast e :: 32 word))"
    by (simp add: sint_uint)
  also have "\<dots> = uint e"
    unfolding u by (rule signed_take_bit_int_eq_self [OF lo hi])
  finally show ?thesis .
qed


lemma attempt_all:
  "\<forall>n. \<not> fl n \<Longrightarrow> attempt fl cs log = (log @ map snd cs, True)"
  by (induction cs arbitrary: log) auto

lemma attempt_log:
  "set (fst (attempt fl cs log)) \<subseteq> set log \<union> snd ` set cs"
proof (induction cs arbitrary: log)
  case Nil
  then show ?case by simp
next
  case (Cons p cs)
  obtain u e where p: "p = (u, e)" by (cases p)
  show ?case
  proof (cases "fl u")
    case True
    then show ?thesis by (auto simp: p)
  next
    case False
    with Cons.IH [of "log @ [e]"] show ?thesis by (auto simp: p)
  qed
qed

lemma vector_loop_no_error:
  "ReadError \<notin> set reads \<Longrightarrow> snd (vector_loop reads b a) = 0"
  by (induction reads b a rule: vector_loop.induct) (auto split: prod.splits)

lemma string_no_error:
  "ReadError \<notin> set reads \<Longrightarrow> snd (HandleOutputToString reads h) = 0"
  by (induction reads h rule: HandleOutputToString.induct) (auto simp: Let_def)

lemma callback_no_error:
  "\<forall>n. \<not> fails w n \<Longrightarrow> ReadError \<notin> set reads \<Longrightarrow> HandleOutputToCallback w reads = 0"
  by (induction w reads rule: HandleOutputToCallback.induct) auto

lemma output_worker_no_error:
  assumes "\<forall>n. \<not> fails w n" "ReadError \<notin> set reads"
  shows "snd (snd (output_worker w reads ah sh f)) = 0"
  using vector_loop_no_error [OF assms(2)] string_no_error [OF assms(2)]
    callback_no_error [OF assms]
  by (auto simp: output_worker_def HandleOutputToVector_def split: option.splits prod.splits)
    (metis snd_conv)+

lemma write_no_error: "\<forall>n. \<not> fails w n \<Longrightarrow> snd (WriteToStdin w line) = False"
  by (simp add: WriteToStdin_def)

lemma stdin_vector_no_error: "\<forall>n. \<not> fails w n \<Longrightarrow> HandleStdinFromVector w ls = False"
  by (induction ls) (auto simp: WriteToStdin_def split: prod.splits if_splits)

lemma input_no_error: "\<forall>n. \<not> fails w n \<Longrightarrow> HandleInputThread w c = False"
  by (auto simp: HandleInputThread_def stdin_vector_no_error write_no_error split: option.splits)

lemma joined_no_error:
  assumes "undisturbed w"
  shows "\<exists>c'. joined w c = (c', False, False, False) \<and> rc c' = rc c"
proof -
  from assms have nf: "\<forall>n. \<not> fails w n" and o: "ReadError \<notin> set (out_reads w)"
    and e: "ReadError \<notin> set (err_reads w)"
    by (simp_all add: undisturbed_def)
  obtain ao so eo where ow: "output_worker w (out_reads w) (aOut c) (sOut c) (fOut c) = (ao, so, eo)"
    by (cases "output_worker w (out_reads w) (aOut c) (sOut c) (fOut c)") auto
  obtain ae se ee where ew: "output_worker w (err_reads w) (aErr c) (sErr c) (fErr c) = (ae, se, ee)"
    by (cases "output_worker w (err_reads w) (aErr c) (sErr c) (fErr c)") auto
  from output_worker_no_error [OF nf o, of "aOut c" "sOut c" "fOut c"] ow have eo: "eo = 0" by simp
  from output_worker_no_error [OF nf e, of "aErr c" "sErr c" "fErr c"] ew have ee: "ee = 0" by simp
  show ?thesis
    unfolding joined_def ow ew eo ee
    by (simp add: input_no_error [OF nf] split: if_splits)
qed

lemma launch_ok: "\<forall>n. \<not> fails w n \<Longrightarrow> snd (launch w c log)"
  by (simp add: launch_def)


lemma wait_for_process_ends:
  assumes nf: "\<forall>n. \<not> fails w n" and e: "ends_with (child_waits w) s"
    and t: "WIFEXITED s \<or> WIFSIGNALED s" and x: "WEXITSTATUS s = ucast (code :: 8 word)"
  shows "WaitForProcess w c = Some (False, uint code)"
proof (cases "fIn c")
  case False
  from wait_loop_ends [OF e t] False nf show ?thesis
    by (simp add: WaitForProcess_def x sint_ucast_8_32)
next
  case True
  have "\<not> handover_fails w" using nf by (simp add: handover_fails_def)
  from proxy_worker_ends [OF e t this] nf
  have pw: "proxy_waits w = [WaitStatus (status_of (Exited code))]"
    by (simp add: proxy_waits_def x ucast_8_32_8)
  have "wait_loop (proxy_waits w) = Some (Some (status_of (Exited code)))"
    unfolding pw using exit_exited [of code] by simp
  with True nf show ?thesis
    by (simp add: WaitForProcess_def exit_status sint_ucast_8_32)
qed

lemma supervise_ends:
  assumes u: "undisturbed w" and e: "ends_with (child_waits w) s"
    and t: "WIFEXITED s \<or> WIFSIGNALED s" and x: "WEXITSTATUS s = ucast (code :: 8 word)"
  shows "\<exists>r. supervise w c log = Some (Returned r) \<and> status r = SHELLSPAWN_OK
              \<and> rc (post r) = uint code"
proof -
  from u have nf: "\<forall>n. \<not> fails w n" by (simp add: undisturbed_def)
  obtain log1 where l: "launch w c log = (log1, True)"
    using launch_ok [OF nf, of c log] by (cases "launch w c log") auto
  have a: "attempt (fails w) (thread_calls c) log1 = (log1 @ map snd (thread_calls c), True)"
    by (rule attempt_all [OF nf])
  have m: "(\<exists>n \<in> {38..42}. fails w n) = False" using nf by simp
  note wfp = wait_for_process_ends [OF nf e t x, of c]
  from joined_no_error [OF u, of c] obtain c' where j: "joined w c = (c', False, False, False)"
    by auto
  show ?thesis
    by (simp add: supervise_def l a wfp j m)
qed

lemma shellspawn_ends:
  assumes v: "validate c = None" and u: "undisturbed w" and r: "resolved w c"
    and e: "ends_with (child_waits w) s"
    and t: "WIFEXITED s \<or> WIFSIGNALED s" and x: "WEXITSTATUS s = ucast (code :: 8 word)"
  shows "\<exists>r. shellspawn w c = Some (Returned r) \<and> status r = SHELLSPAWN_OK
              \<and> rc (post r) = uint code"
proof -
  from u have nf: "\<forall>n. \<not> fails w n" by (simp add: undisturbed_def)
  have a: "attempt (fails w) (setup_calls c) [] = ([] @ map snd (setup_calls c), True)"
    by (rule attempt_all [OF nf])
  from r obtain p file_path where p: "ParseCommand (\<not> fails w 18) (command c) = Inr (Some p)"
    and f: "resolve w (base_name p) = Some (Some file_path)"
    by (auto simp: resolved_def split: sum.splits option.splits)
  from supervise_ends [OF u e t x, of "clear_outputs c" "[] @ map snd (setup_calls c)"]
  show ?thesis
    by (simp add: shellspawn_def v a p f)
qed

text \<open>
  C1: for every call with valid bindings whose command resolves, in an environment where
  no system call fails, a child that (after any number of stops and continuations) exits
  normally with code \<open>code\<close> in 0..255 makes \<^verbatim>\<open>shellspawn\<close> return \<^verbatim>\<open>SHELLSPAWN_OK\<close> with
  \<open>code\<close> stored at \<^verbatim>\<open>rc\<close>, whatever the code is, with or without the proxy.
\<close>

theorem C1_exit_code_faithful:
  assumes "validate c = None" and "undisturbed w" and "resolved w c"
    and "ends_with (child_waits w) (status_of (Exited code))"
  shows "\<exists>r. shellspawn w c = Some (Returned r) \<and> status r = SHELLSPAWN_OK
              \<and> rc (post r) = uint code"
  using assms exit_exited [of code] exit_status [of code]
  by (intro shellspawn_ends) simp_all

theorem C1_exit_code_witness:
  "validate (plain_call ''/bin/false'') = None
   \<and> undisturbed (quiet_os (Some ''/usr/bin:/bin'') [''/bin/false'']
        [WaitStatus (status_of (Stopped 19)), WaitStatus (status_of Continued),
         WaitStatus (status_of (Exited 1))])
   \<and> resolved (quiet_os (Some ''/usr/bin:/bin'') [''/bin/false'']
        [WaitStatus (status_of (Stopped 19)), WaitStatus (status_of Continued),
         WaitStatus (status_of (Exited 1))]) (plain_call ''/bin/false'')
   \<and> ends_with [WaitStatus (status_of (Stopped 19)), WaitStatus (status_of Continued),
         WaitStatus (status_of (Exited 1))] (status_of (Exited 1))
   \<and> reported (shellspawn (quiet_os (Some ''/usr/bin:/bin'') [''/bin/false'']
        [WaitStatus (status_of (Stopped 19)), WaitStatus (status_of Continued),
         WaitStatus (status_of (Exited 1))]) (plain_call ''/bin/false'')) = Some (SHELLSPAWN_OK, 1)"
proof -
  let ?ws = "[WaitStatus (status_of (Stopped 19)), WaitStatus (status_of Continued),
         WaitStatus (status_of (Exited 1))]"
  let ?w = "quiet_os (Some ''/usr/bin:/bin'') [''/bin/false''] ?ws"
  let ?c = "plain_call ''/bin/false''"
  have h1: "validate ?c = None" by (rule plain_call_valid)
  have h2: "undisturbed ?w" by (rule quiet_os_undisturbed)
  have h3: "resolved ?w ?c" by code_simp
  have h4: "ends_with ?ws (status_of (Exited 1))"
  proof -
    have "\<exists>t. ?ws ! i = WaitStatus t \<and> \<not> WIFEXITED t \<and> \<not> WIFSIGNALED t" if "i < 2" for i
    proof -
      from that have "i = 0 \<or> i = 1" by auto
      then show ?thesis using stopped_running [of 19] continued_running by auto
    qed
    then have "2 < length ?ws \<and> ?ws ! 2 = WaitStatus (status_of (Exited 1))
        \<and> (\<forall>i < 2. \<exists>t. ?ws ! i = WaitStatus t \<and> \<not> WIFEXITED t \<and> \<not> WIFSIGNALED t)"
      by simp
    then show ?thesis unfolding ends_with_def by (rule exI [of _ 2])
  qed
  have cw: "child_waits ?w = ?ws" by (simp add: quiet_os_def)
  from h4 have h4': "ends_with (child_waits ?w) (status_of (Exited 1))" by (simp only: cw)
  from C1_exit_code_faithful [OF h1 h2 h3 h4']
  have "reported (shellspawn ?w ?c) = Some (SHELLSPAWN_OK, 1)"
    by (auto simp: reported_def)
  with h1 h2 h3 h4 show ?thesis by simp
qed

text \<open>
  C8 (as stated, refuted): the child is killed by signal 9 (\<^verbatim>\<open>WIFSIGNALED\<close> holds for its
  status); the call returns \<^verbatim>\<open>SHELLSPAWN_OK\<close> and stores 0 at \<^verbatim>\<open>rc\<close>.
\<close>

theorem C8_killed_child_counterexample:
  "WIFSIGNALED (status_of (Signaled 9 False))
   \<and> reported (shellspawn (quiet_os None [''/bin/sleep''] [WaitStatus (status_of (Signaled 9 False))])
        (plain_call ''/bin/sleep 100'')) = Some (SHELLSPAWN_OK, 0)"
  by code_simp

text \<open>
  C8 (amended): when the child terminates because of a signal, \<^verbatim>\<open>shellspawn\<close> returns
  \<^verbatim>\<open>SHELLSPAWN_OK\<close> and the exit code it reports is \<^verbatim>\<open>WEXITSTATUS\<close> of the wait status,
  which is 0; the signal number does not enter it.
\<close>

theorem C8_signaled_child_reports_zero:
  assumes "validate c = None" and "undisturbed w" and "resolved w c"
    and "ends_with (child_waits w) (status_of (Signaled sig core))"
    and "0 < sig" and "sig < 0x7f"
  shows "\<exists>r. shellspawn w c = Some (Returned r) \<and> status r = SHELLSPAWN_OK
              \<and> rc (post r) = 0"
proof -
  have t: "WIFEXITED (status_of (Signaled sig core)) \<or> WIFSIGNALED (status_of (Signaled sig core))"
    using sig_signaled(1) [OF assms(5,6)] by simp
  have x: "WEXITSTATUS (status_of (Signaled sig core)) = ucast (0 :: 8 word)"
    by (simp add: sig_status)
  from shellspawn_ends [OF assms(1-4) t x] show ?thesis by simp
qed

theorem C8_signaled_child_witness:
  "validate (plain_call ''/bin/sleep 100'') = None
   \<and> undisturbed (quiet_os None [''/bin/sleep''] [WaitStatus (status_of (Signaled 11 True))])
   \<and> resolved (quiet_os None [''/bin/sleep''] [WaitStatus (status_of (Signaled 11 True))])
        (plain_call ''/bin/sleep 100'')
   \<and> ends_with [WaitStatus (status_of (Signaled 11 True))] (status_of (Signaled 11 True))
   \<and> (0 :: 8 word) < 11 \<and> (11 :: 8 word) < 0x7f
   \<and> reported (shellspawn (quiet_os None [''/bin/sleep''] [WaitStatus (status_of (Signaled 11 True))])
        (plain_call ''/bin/sleep 100'')) = Some (SHELLSPAWN_OK, 0)"
proof -
  let ?ws = "[WaitStatus (status_of (Signaled 11 True))]"
  let ?w = "quiet_os None [''/bin/sleep''] ?ws"
  let ?c = "plain_call ''/bin/sleep 100''"
  have h1: "validate ?c = None" by (rule plain_call_valid)
  have h2: "undisturbed ?w" by (rule quiet_os_undisturbed)
  have h3: "resolved ?w ?c" by code_simp
  have h4: "ends_with ?ws (status_of (Signaled 11 True))"
    unfolding ends_with_def by (intro exI [of _ 0]) simp
  have h5: "(0 :: 8 word) < 11" by simp
  have h6: "(11 :: 8 word) < 0x7f" by simp
  have cw: "child_waits ?w = ?ws" by (simp add: quiet_os_def)
  from h4 have h4': "ends_with (child_waits ?w) (status_of (Signaled 11 True))" by (simp only: cw)
  from C8_signaled_child_reports_zero [OF h1 h2 h3 h4' h5 h6]
  have "reported (shellspawn ?w ?c) = Some (SHELLSPAWN_OK, 0)"
    by (auto simp: reported_def)
  with h1 h2 h3 h4 h5 h6 show ?thesis by simp
qed

lemma blank_command_resolution:
  assumes "\<not> ExeFound w []"
    and "PATH w = Some env"
    and "\<not> ExeFound w (takeWhile (\<lambda>c. c \<noteq> COLON) (cstr env) @ [SLASH])"
    and "\<not> ExeFound w [SLASH]"
    and "deref (cstr env) \<noteq> COLON"
  shows "resolve w [] = (if COLON \<in> set (cstr env) then Some None else None)"
  using assms
  by (simp add: resolve_cases path_loop_cases deref_def NUL_def SLASH_def)

lemma blank_command_outcome:
  assumes v: "validate c = None" and s: "setup_ok w c" and m: "\<not> fails w 18"
    and b: "command c = replicate n SP"
    and f: "\<not> ExeFound w []" "PATH w = Some env"
      "\<not> ExeFound w (takeWhile (\<lambda>c. c \<noteq> COLON) (cstr env) @ [SLASH])"
      "\<not> ExeFound w [SLASH]" "deref (cstr env) \<noteq> COLON"
  shows "reported (shellspawn w c)
           = (if COLON \<in> set (cstr env) then Some (SHELLSPAWN_NOFOUND, rc c) else None)"
proof -
  obtain log where a: "attempt (fails w) (setup_calls c) [] = (log, True)"
    using s by (cases "attempt (fails w) (setup_calls c) []") (auto simp: setup_ok_def)
  have rcc: "rc (clear_outputs c) = rc c" by (simp add: clear_outputs_def)
  show ?thesis
    by (simp add: shellspawn_def v a m b ParseCommand_blank base_name_blank
        blank_command_resolution [OF f] reported_def rcc)
qed

lemma empty_command_with_two_components:
  "reported (shellspawn (quiet_os (Some ''/usr/bin:/bin'') [''/bin/ls''] []) (plain_call []))
     = Some (SHELLSPAWN_NOFOUND, 77)"
  by code_simp

text \<open>
  C7 (the code at the failing input): the command is empty, or three spaces, and PATH is
  the single directory \<open>/bin\<close>. \<^verbatim>\<open>ParseCommand\<close> does not reject the command; the PATH
  loop tries \<open>/bin/\<close> and then \<open>/\<close> for ever, so the call never returns.
\<close>

theorem C7_empty_command_never_returns:
  "ParseCommand True [] \<noteq> Inr None
   \<and> shellspawn (quiet_os (Some ''/bin'') [''/bin/ls''] []) (plain_call []) = None
   \<and> shellspawn (quiet_os (Some ''/bin'') [''/bin/ls''] []) (plain_call ''   '') = None"
proof -
  let ?w = "quiet_os (Some ''/bin'') [''/bin/ls''] []"
  have f: "\<not> ExeFound ?w ''/bin/''" "\<not> ExeFound ?w ''/''" "\<not> ExeFound ?w []"
    by code_simp+
  have "path_loop (ExeFound ?w) [] ''/bin'' = None"
    using f by (subst path_loop_cases) (simp add: deref_def COLON_def SLASH_def)
  moreover have "cstr ''/bin'' = ''/bin''" "PATH ?w = Some ''/bin''" "deref [] \<noteq> SLASH"
    by code_simp+
  ultimately have r: "resolve ?w [] = None"
    using f(3) by (simp add: resolve_cases)
  have b: "base_name \<lparr>p_buffer = [NUL], p_file = 0, p_argv = [Ptr 0, Null]\<rparr> = []"
    "base_name \<lparr>p_buffer = [CHR '' '', CHR '' '', CHR '' '', NUL], p_file = 3, p_argv = [Ptr 3, Null]\<rparr> = []"
    by code_simp+
  have v: "validate (plain_call cmd) = None" for cmd
    by (simp add: validate_def plain_call_def bindings_in_def bindings_out_def bindings_err_def
        bindings_def)
  have a: "attempt (fails ?w) (setup_calls (plain_call cmd)) []
             = ([] @ map snd (setup_calls (plain_call cmd)), True)" for cmd
    by (rule attempt_all) (simp add: quiet_os_def)
  have nf: "\<not> fails ?w 18" by (simp add: quiet_os_def)
  have c: "command (plain_call cmd) = cmd" for cmd by (simp add: plain_call_def)
  have "shellspawn ?w (plain_call []) = None"
    by (simp add: shellspawn_def v nf c ParseCommand_empty b r a)
  moreover have "shellspawn ?w (plain_call ''   '') = None"
    by (simp add: shellspawn_def v nf c ParseCommand_spaces b r a)
  ultimately show ?thesis by (simp add: ParseCommand_empty)
qed

lemma no_fork_in_setup:
  "ChildForked \<notin> set (fst (attempt fl (setup_calls c) []))"
  "ProxyForked \<notin> set (fst (attempt fl (setup_calls c) []))"
  using attempt_log [of fl "setup_calls c" "[]"]
  by (auto simp: setup_calls_def split: if_splits)

text \<open>
  Where the resolver ends without an executable, \<^verbatim>\<open>shellspawn\<close> returns
  \<^verbatim>\<open>SHELLSPAWN_NOFOUND\<close>, the value at \<^verbatim>\<open>rc\<close> is the one before the call, and no proxy and
  no child was forked.
\<close>

lemma not_found_leaves_rc:
  assumes "validate c = None" and "setup_ok w c" and "unresolved w c"
  shows "\<exists>r. shellspawn w c = Some (Returned r) \<and> status r = SHELLSPAWN_NOFOUND
              \<and> rc (post r) = rc c
              \<and> ChildForked \<notin> set (events r) \<and> ProxyForked \<notin> set (events r)"
proof -
  obtain log where a: "attempt (fails w) (setup_calls c) [] = (log, True)"
    using assms(2) by (cases "attempt (fails w) (setup_calls c) []") (auto simp: setup_ok_def)
  from no_fork_in_setup [of "fails w" c] a
  have nofork: "ChildForked \<notin> set log" "ProxyForked \<notin> set log" by simp_all
  have rcc: "rc (clear_outputs c) = rc c" by (simp add: clear_outputs_def)
  from assms(3) consider "ParseCommand (\<not> fails w 18) (command c) = Inr None"
    | p where "ParseCommand (\<not> fails w 18) (command c) = Inr (Some p)"
        "resolve w (base_name p) = Some None"
    by (auto simp: unresolved_def split: sum.splits option.splits)
  then show ?thesis
  proof cases
    case 1
    then show ?thesis using nofork rcc by (simp add: shellspawn_def assms(1) a)
  next
    case 2
    then show ?thesis using nofork rcc by (simp add: shellspawn_def assms(1) a)
  qed
qed

text \<open>
  A program name without a leading slash that is executable neither as given, nor under the
  first PATH component, nor under \<open>/\<close>, in a call with valid bindings whose allocations
  succeed and whose command \<^verbatim>\<open>ParseCommand\<close> accepts, with a PATH that does not begin with
  a colon: when PATH contains a colon the call returns \<^verbatim>\<open>SHELLSPAWN_NOFOUND\<close>; when it does
  not, the PATH loop never ends and the call does not return.
\<close>

lemma missing_program_outcome:
  assumes v: "validate c = None" and s: "setup_ok w c"
    and p: "ParseCommand (\<not> fails w 18) (command c) = Inr (Some p)"
    and f: "\<not> ExeFound w (base_name p)" "deref (base_name p) \<noteq> SLASH" "PATH w = Some env"
      "deref (cstr env) \<noteq> COLON"
      "\<not> ExeFound w (takeWhile (\<lambda>c. c \<noteq> COLON) (cstr env) @ [SLASH] @ base_name p)"
      "\<not> ExeFound w ([SLASH] @ base_name p)"
  shows "shellspawn w c
           = (if COLON \<in> set (cstr env)
              then Some (Returned \<lparr>status = SHELLSPAWN_NOFOUND, post = clear_outputs c,
                     events = fst (attempt (fails w) (setup_calls c) []) @ [CleanedUp]\<rparr>)
              else None)"
proof -
  obtain log where a: "attempt (fails w) (setup_calls c) [] = (log, True)"
    using s by (cases "attempt (fails w) (setup_calls c) []") (auto simp: setup_ok_def)
  have r: "resolve w (base_name p) = (if COLON \<in> set (cstr env) then Some None else None)"
    using f by (simp add: resolve_cases path_loop_cases)
  show ?thesis
    by (simp add: shellspawn_def v a p r)
qed

lemma missing_program_two_components:
  "reported (shellspawn (quiet_os (Some ''/usr/bin:/bin'') [''/bin/ls''] [])
               (plain_call ''no_such_program_xyz'')) = Some (SHELLSPAWN_NOFOUND, 77)"
  by code_simp

lemma missing_program_quoted_argument:
  "shellspawn (quiet_os (Some ''/usr/bin:/bin'') [''/bin/ls''] [])
     (plain_call (''no_such_program_xyz '' @ [DQUOTE] @ ''a b'' @ [DQUOTE]))
     = Some (Undefined (WildStore 1))"
  by code_simp

text \<open>
  C9 (the code at the failing input): the command is \<open>no_such_program_xyz\<close>, PATH is the
  single directory \<open>/bin\<close>, no stream is bound and every allocation succeeds. No executable
  of that name exists, as given, under \<open>/bin\<close> or under \<open>/\<close>, so the command cannot be
  resolved. The PATH loop tries \<open>/bin/no_such_program_xyz\<close>, stays on the end of PATH, which
  is not a colon, and tries \<open>/no_such_program_xyz\<close> for ever: the call never returns, and
  so does not return \<^verbatim>\<open>SHELLSPAWN_NOFOUND\<close>.
\<close>

theorem C9_missing_program_never_returns:
  "validate (plain_call ''no_such_program_xyz'') = None
   \<and> setup_ok (quiet_os (Some ''/bin'') [''/bin/ls''] []) (plain_call ''no_such_program_xyz'')
   \<and> \<not> ExeFound (quiet_os (Some ''/bin'') [''/bin/ls''] []) ''no_such_program_xyz''
   \<and> \<not> ExeFound (quiet_os (Some ''/bin'') [''/bin/ls''] []) ''/bin/no_such_program_xyz''
   \<and> \<not> ExeFound (quiet_os (Some ''/bin'') [''/bin/ls''] []) ''/no_such_program_xyz''
   \<and> shellspawn (quiet_os (Some ''/bin'') [''/bin/ls''] []) (plain_call ''no_such_program_xyz'')
       = None"
proof -
  let ?w = "quiet_os (Some ''/bin'') [''/bin/ls''] []"
  let ?c = "plain_call ''no_such_program_xyz''"
  let ?p = "\<lparr>p_buffer = ''no_such_program_xyz'' @ [NUL], p_file = 0, p_argv = [Ptr 0, Null]\<rparr>"
  have v: "validate ?c = None" by (rule plain_call_valid)
  have s: "setup_ok ?w ?c" by code_simp
  have p: "ParseCommand (\<not> fails ?w 18) (command ?c) = Inr (Some ?p)"
    by code_simp
  have b: "base_name ?p = ''no_such_program_xyz''"
    by code_simp
  have f: "\<not> ExeFound ?w ''no_such_program_xyz''"
    "\<not> ExeFound ?w ''/bin/no_such_program_xyz''"
    "\<not> ExeFound ?w ''/no_such_program_xyz''"
    by code_simp+
  have e: "PATH ?w = Some ''/bin''" by (simp add: quiet_os_def)
  have g1: "\<not> ExeFound ?w (base_name ?p)" unfolding b by (rule f(1))
  have g2: "deref (base_name ?p) \<noteq> SLASH" unfolding b by code_simp
  have g3: "deref (cstr ''/bin'') \<noteq> COLON" by code_simp
  have t: "takeWhile (\<lambda>c. c \<noteq> COLON) (cstr ''/bin'') @ [SLASH] @ base_name ?p
             = ''/bin/no_such_program_xyz''"
    unfolding b by code_simp
  have u: "[SLASH] @ base_name ?p = ''/no_such_program_xyz''"
    unfolding b by code_simp
  have g4: "\<not> ExeFound ?w (takeWhile (\<lambda>c. c \<noteq> COLON) (cstr ''/bin'') @ [SLASH] @ base_name ?p)"
    unfolding t by (rule f(2))
  have g5: "\<not> ExeFound ?w ([SLASH] @ base_name ?p)"
    unfolding u by (rule f(3))
  have nc: "COLON \<notin> set (cstr ''/bin'')" by code_simp
  have "shellspawn ?w ?c = None"
    using missing_program_outcome [OF v s p g1 g2 e g3 g4 g5] nc by simp
  with v s f show ?thesis by simp
qed

lemma supervise_rc:
  "supervise w c log = Some (Returned r) \<Longrightarrow> status r \<noteq> SHELLSPAWN_OK \<Longrightarrow> rc (post r) = rc c"
  unfolding supervise_def joined_def
  by (auto simp: Let_def split: prod.splits bool.splits option.splits if_splits)

lemma rc_written_only_on_ok:
  assumes "shellspawn w c = Some (Returned r)" and "status r \<noteq> SHELLSPAWN_OK"
  shows "rc (post r) = rc c"
proof -
  have rcc: "rc (clear_outputs c) = rc c" by (simp add: clear_outputs_def)
  from assms show ?thesis
    unfolding shellspawn_def
    by (auto simp: rcc split: prod.splits bool.splits option.splits sum.splits dest: supervise_rc)
qed


end
